theory Spec2Isabelle
  imports Main
begin

section \<open>Data model of the ledger\<close>

text \<open>
  Modelled from the spec: the table declarations of \<^verbatim>\<open>sql.py\<close> (\<^verbatim>\<open>IP\<close>, \<^verbatim>\<open>PTR\<close>,
  \<^verbatim>\<open>Transaction\<close>) are imported by \<^verbatim>\<open>eavesarp.py\<close> but are not among the sources. The
  columns are the ones the code reads and writes; the defaults are the ones the
  specification gives: a new address entity has \<^verbatim>\<open>resolve_attempted = false\<close> and
  \<^verbatim>\<open>mac_address = null\<close>, a new transaction has \<^verbatim>\<open>count = 1\<close>. A table is the list of
  its rows in insertion order.
\<close>

record ip =
  ip_id :: nat
  ip_value :: string
  mac_address :: "string option"
  arp_resolve_attempted :: bool

record ptr =
  ptr_ip_id :: nat
  ptr_value :: string

record transaction =
  sender_ip_id :: nat
  target_ip_id :: nat
  count :: int

record ledger =
  ips :: "ip list"
  ptrs :: "ptr list"
  transactions :: "transaction list"

definition empty_ledger :: ledger where
  "empty_ledger = \<lparr>ips = [], ptrs = [], transactions = []\<rparr>"

text \<open>The integer primary key of a new \<^verbatim>\<open>IP\<close> row: one more than the largest key in use.\<close>

definition next_id :: "ip list \<Rightarrow> nat" where
  "next_id xs = Suc (foldr max (map ip_id xs) 0)"

text \<open>Python truthiness of a value that is \<^verbatim>\<open>None\<close> or a string.\<close>

definition truthy :: "string option \<Rightarrow> bool" where
  "truthy x = (case x of None \<Rightarrow> False | Some s \<Rightarrow> s \<noteq> [])"

text \<open>
  \<^verbatim>\<open>query(...).filter(...).first()\<close> and the assignment to a column of the row it
  returned: the first row that satisfies the filter is the one updated.
\<close>

fun update_first :: "('a \<Rightarrow> bool) \<Rightarrow> ('a \<Rightarrow> 'a) \<Rightarrow> 'a list \<Rightarrow> 'a list" where
  "update_first P f [] = []"
| "update_first P f (x # xs) = (if P x then f x # xs else x # update_first P f xs)"

text \<open>The relationships \<^verbatim>\<open>t.sender\<close>, \<^verbatim>\<open>t.target\<close> (by key) and \<^verbatim>\<open>ip.ptr\<close>.\<close>

definition ip_by_id :: "ledger \<Rightarrow> nat \<Rightarrow> ip option" where
  "ip_by_id db i = find (\<lambda>x. ip_id x = i) (ips db)"

definition ptr_of :: "ledger \<Rightarrow> ip \<Rightarrow> ptr list" where
  "ptr_of db i = filter (\<lambda>p. ptr_ip_id p = ip_id i) (ptrs db)"

section \<open>The network, packets and errors\<close>

text \<open>
  The two network operations are external: what the resolver answers for an address
  (\<^verbatim>\<open>None\<close> on any exception) and the hardware address of the first answer to an ARP
  request on an interface (\<^verbatim>\<open>None\<close> when nothing answers). Each call is recorded
  as an effect, in the order the calls are made.
\<close>

record network =
  dns_answer :: "string \<Rightarrow> string option"
  arp_answer :: "string option \<Rightarrow> string \<Rightarrow> string option"

datatype effect = DnsQuery string | ArpProbe "string option" string

definition arp_request :: "network \<Rightarrow> string option \<Rightarrow> string \<Rightarrow> string option" where
  "arp_request net interface target = arp_answer net interface target"

definition reverse_resolve :: "network \<Rightarrow> string \<Rightarrow> string option" where
  "reverse_resolve net a = dns_answer net a"

record arp =
  arp_op :: int
  psrc :: string
  pdst :: string

datatype packet = Packet (arp_layer: "arp option")

text \<open>
  The exceptions: the two the module raises itself (\<^verbatim>\<open>File not found: ...\<close> and
  \<^verbatim>\<open>Active ARP resolution requires an interface ip\<close>), the \<^verbatim>\<open>AttributeError\<close> of an
  attribute read on \<^verbatim>\<open>None\<close>, and the ones of the file system, the database and the
  capture reader.
\<close>

datatype error =
    File_not_found string
  | ActiveRequiresInterface
  | AttributeError
  | FileNotFoundError string
  | IsADirectoryError string
  | PermissionError string
  | OperationalError string
  | DatabaseError string
  | ScapyError string

text \<open>
  Modelled from the spec: \<^verbatim>\<open>lists.py\<close> is not among the sources. A \<^verbatim>\<open>Lists\<close> object is
  the predicate its \<^verbatim>\<open>check\<close> method computes; an absent list is \<^verbatim>\<open>None\<close>.
\<close>

type_synonym lists = "string \<Rightarrow> bool"

definition lists_reject :: "lists option \<Rightarrow> string \<Rightarrow> bool" where
  "lists_reject l v = (case l of None \<Rightarrow> False | Some check \<Rightarrow> \<not> check v)"

section \<open>Packet validation and filtering\<close>

definition validate_packet :: "packet \<Rightarrow> arp option" where
  "validate_packet p =
     (case arp_layer p of
        Some a \<Rightarrow> if arp_op a = 1 then Some a else None
      | None \<Rightarrow> None)"

definition unpack_arp :: "arp \<Rightarrow> string \<times> string" where
  "unpack_arp a = (psrc a, pdst a)"

definition unpack_packet :: "packet \<Rightarrow> error + string \<times> string" where
  "unpack_packet p =
     (case arp_layer p of
        None \<Rightarrow> Inl AttributeError
      | Some a \<Rightarrow> Inr (unpack_arp a))"

text \<open>
  \<^verbatim>\<open>filter_packet\<close> under its decorator \<^verbatim>\<open>validate_packet_unpack\<close>: \<^verbatim>\<open>None\<close> is the
  \<^verbatim>\<open>False\<close> of the source, \<^verbatim>\<open>Some\<close> the address pair it returns.
\<close>

definition filter_packet ::
  "packet \<Rightarrow> lists option \<Rightarrow> lists option \<Rightarrow> (string \<times> string) option" where
  "filter_packet p sender_lists target_lists =
     (case validate_packet p of
        None \<Rightarrow> None
      | Some a \<Rightarrow>
          (let (sender, target) = unpack_arp a in
           if lists_reject sender_lists sender then None
           else if lists_reject target_lists target then None
           else Some (sender, target)))"

text \<open>
  \<^verbatim>\<open>do_sniff\<close>: the capture library keeps the packets of the wire for which the
  \<^verbatim>\<open>lfilter\<close> is truthy and stops after \<^verbatim>\<open>count\<close> of them (\<^verbatim>\<open>0\<close>: no limit).
\<close>

definition do_sniff :: "packet list \<Rightarrow> nat \<Rightarrow> lists option \<Rightarrow> lists option \<Rightarrow> packet list" where
  "do_sniff wire redraw_frequency sender_lists target_lists =
     (let kept = filter (\<lambda>pkt. filter_packet pkt sender_lists target_lists \<noteq> None) wire
      in if redraw_frequency = 0 then kept else take redraw_frequency kept)"

section \<open>The entity registry\<close>

definition add_ptr :: "nat \<Rightarrow> string \<Rightarrow> ledger \<Rightarrow> ledger" where
  "add_ptr i v db = db\<lparr>ptrs := ptrs db @ [\<lparr>ptr_ip_id = i, ptr_value = v\<rparr>]\<rparr>"

definition get_or_create_ip ::
  "network \<Rightarrow> string \<Rightarrow> ledger \<Rightarrow> bool \<Rightarrow> string option \<Rightarrow> string option \<Rightarrow> bool
     \<Rightarrow> ip \<times> ledger \<times> effect list" where
  "get_or_create_ip net v db resolve ptr_arg interface active =
     (case find (\<lambda>i. ip_value i = v) (ips db) of
        Some db_ip \<Rightarrow> (db_ip, db, [])
      | None \<Rightarrow>
          (let new = \<lparr>ip_id = next_id (ips db), ip_value = v,
                      mac_address = None, arp_resolve_attempted = False\<rparr>;
               db1 = db\<lparr>ips := ips db @ [new]\<rparr>;
               (db2, fx2) =
                 (if truthy ptr_arg then
                    (case ptr_arg of
                       Some p \<Rightarrow> (add_ptr (ip_id new) p db1, [])
                     | None \<Rightarrow> (db1, []))
                  else if resolve then
                    (case reverse_resolve net (ip_value new) of
                       Some p \<Rightarrow>
                         (if p \<noteq> [] then add_ptr (ip_id new) p db1 else db1,
                          [DnsQuery (ip_value new)])
                     | None \<Rightarrow> (db1, [DnsQuery (ip_value new)]))
                  else (db1, []))
           in
             if active \<and> \<not> arp_resolve_attempted new then
               (let hwaddr = arp_request net interface (ip_value new);
                    ip1 = (if truthy hwaddr then new\<lparr>mac_address := hwaddr\<rparr> else new);
                    ip2 = ip1\<lparr>arp_resolve_attempted := True\<rparr>
                in (ip2,
                    db2\<lparr>ips := update_first (\<lambda>i. ip_id i = ip_id new) (\<lambda>_. ip2) (ips db2)\<rparr>,
                    fx2 @ [ArpProbe interface (ip_value new)]))
             else (new, db2, fx2)))"

section \<open>The ingestion pipeline\<close>

definition find_transaction :: "ledger \<Rightarrow> nat \<Rightarrow> nat \<Rightarrow> transaction option" where
  "find_transaction db s t =
     find (\<lambda>x. sender_ip_id x = s \<and> target_ip_id x = t) (transactions db)"

fun unpack_packets :: "packet list \<Rightarrow> error + (string \<times> string) list" where
  "unpack_packets [] = Inr []"
| "unpack_packets (p # ps) =
     (case unpack_packet p of
        Inl e \<Rightarrow> Inl e
      | Inr x \<Rightarrow> (case unpack_packets ps of Inl e \<Rightarrow> Inl e | Inr xs \<Rightarrow> Inr (x # xs)))"

text \<open>The body of the loop of \<^verbatim>\<open>handle_packets\<close>, for one address pair.\<close>

definition handle_packet ::
  "network \<Rightarrow> string \<times> string \<Rightarrow> ledger \<Rightarrow> bool \<Rightarrow> bool \<Rightarrow> string option
     \<Rightarrow> ledger \<times> effect list" where
  "handle_packet net pkt db resolve active interface =
     (let (sender, db1, fx1) = get_or_create_ip net (fst pkt) db resolve None None False;
          (target, db2, fx2) = get_or_create_ip net (snd pkt) db1 resolve None interface active
      in
        (case find_transaction db2 (ip_id sender) (ip_id target) of
           None \<Rightarrow>
             (db2\<lparr>transactions := transactions db2 @
                    [\<lparr>sender_ip_id = ip_id sender, target_ip_id = ip_id target, count = 1\<rparr>]\<rparr>,
              fx1 @ fx2)
         | Some _ \<Rightarrow>
             (db2\<lparr>transactions :=
                    update_first
                      (\<lambda>x. sender_ip_id x = ip_id sender \<and> target_ip_id x = ip_id target)
                      (\<lambda>x. x\<lparr>count := count x + 1\<rparr>) (transactions db2)\<rparr>,
              fx1 @ fx2)))"

fun handle_packets_loop ::
  "network \<Rightarrow> (string \<times> string) list \<Rightarrow> ledger \<Rightarrow> bool \<Rightarrow> bool \<Rightarrow> string option
     \<Rightarrow> ledger \<times> effect list" where
  "handle_packets_loop net [] db resolve active interface = (db, [])"
| "handle_packets_loop net (pkt # pkts) db resolve active interface =
     (let (db1, fx1) = handle_packet net pkt db resolve active interface;
          (db2, fx2) = handle_packets_loop net pkts db1 resolve active interface
      in (db2, fx1 @ fx2))"

definition handle_packets ::
  "network \<Rightarrow> packet list \<Rightarrow> ledger \<Rightarrow> bool \<Rightarrow> bool \<Rightarrow> string option
     \<Rightarrow> error + ledger \<times> effect list" where
  "handle_packets net packets db resolve active interface =
     (case unpack_packets packets of
        Inl e \<Rightarrow> Inl e
      | Inr pairs \<Rightarrow>
          if active \<and> \<not> truthy interface then Inl ActiveRequiresInterface
          else Inr (handle_packets_loop net pairs db resolve active interface))"

section \<open>The report builder\<close>

text \<open>
  Styling is external (the \<^verbatim>\<open>colored\<close> library): \<^verbatim>\<open>stylize\<close> is a parameter. A
  \<^verbatim>\<open>ColorProfile\<close> holds the three styles and the optional emoji of \<^verbatim>\<open>color.py\<close>.
\<close>

record color_profile =
  even_style :: string
  odd_style :: string
  header_style :: string
  target_emoji :: "string option"

definition style_list :: "(string \<Rightarrow> string \<Rightarrow> string) \<Rightarrow> string list \<Rightarrow> string \<Rightarrow> string list" where
  "style_list stylize values style = map (\<lambda>v. stylize v style) values"

definition style_header :: "(string \<Rightarrow> string \<Rightarrow> string) \<Rightarrow> color_profile \<Rightarrow> string list \<Rightarrow> string list" where
  "style_header stylize c headers = style_list stylize headers (header_style c)"

definition style_even :: "(string \<Rightarrow> string \<Rightarrow> string) \<Rightarrow> color_profile \<Rightarrow> string list \<Rightarrow> string list" where
  "style_even stylize c values = style_list stylize values (even_style c)"

definition style_odd :: "(string \<Rightarrow> string \<Rightarrow> string) \<Rightarrow> color_profile \<Rightarrow> string list \<Rightarrow> string list" where
  "style_odd stylize c values = style_list stylize values (odd_style c)"

text \<open>Python's \<^verbatim>\<open>str\<close> of an integer.\<close>

fun str_nat :: "nat \<Rightarrow> string" where
  "str_nat n =
     (if n < 10 then [''0123456789'' ! n]
      else str_nat (n div 10) @ [''0123456789'' ! (n mod 10)])"

definition str :: "int \<Rightarrow> string" where
  "str i = (if i < 0 then CHR ''-'' # str_nat (nat (- i)) else str_nat (nat i))"

text \<open>
  What \<^verbatim>\<open>get_output\<close> returns: the fixed message, or the table handed to
  \<^verbatim>\<open>tabulate\<close> (its headers and its rows; the text layout is the library's).
\<close>

datatype report = Message string | Table "string list" "string list list"

definition no_records :: string where
  "no_records = ''- No accepted ARP requests captured'' @ [CHR 0x0A] @
     ''- If this is unexpected, check your whitelist/blacklist configuration''"

text \<open>
  \<^verbatim>\<open>query(Transaction).order_by(desc(Transaction.count)).all()\<close>; rows of equal count
  stay in insertion order.
\<close>

definition query_transactions_desc :: "ledger \<Rightarrow> transaction list" where
  "query_transactions_desc db = sort_key (\<lambda>t. - count t) (transactions db)"

text \<open>The flag of a stale target (the \<^verbatim>\<open>if active\<close> block of the loop).\<close>

definition sploit_char :: "color_profile option \<Rightarrow> ip \<Rightarrow> string" where
  "sploit_char color_profile target =
     (if \<not> truthy (mac_address target) \<and> arp_resolve_attempted target then
        (case color_profile of
           None \<Rightarrow> ''X''
         | Some c \<Rightarrow>
             (case target_emoji c of
                None \<Rightarrow> ''X''
              | Some e \<Rightarrow> if e \<noteq> [] then e else ''X''))
      else [])"

definition first_ptr :: "ledger \<Rightarrow> ip \<Rightarrow> string" where
  "first_ptr db i = (case ptr_of db i of [] \<Rightarrow> [] | p # _ \<Rightarrow> ptr_value p)"

text \<open>The row of one transaction, as the loop assembles it.\<close>

definition make_row ::
  "ledger \<Rightarrow> color_profile option \<Rightarrow> bool \<Rightarrow> bool \<Rightarrow> bool \<Rightarrow> transaction \<Rightarrow> ip \<Rightarrow> ip
     \<Rightarrow> string list" where
  "make_row db color_profile resolve active new_sender t s g =
     (if new_sender then [ip_value s, ip_value g] else [[], ip_value g])
     @ (if active then [sploit_char color_profile g] else [])
     @ [str (count t)]
     @ (if resolve then
          [if new_sender then first_ptr db s else [], first_ptr db g]
        else [])"

text \<open>\<^verbatim>\<open>rowdict\<close>: a dictionary in insertion order, from a sender to its rows.\<close>

type_synonym rowdict = "(string \<times> string list list) list"

fun rowdict_append :: "string \<Rightarrow> string list \<Rightarrow> rowdict \<Rightarrow> rowdict" where
  "rowdict_append sender row [] = [(sender, [row])]"
| "rowdict_append sender row ((k, rows) # rd) =
     (if k = sender then (k, rows @ [row]) # rd
      else (k, rows) # rowdict_append sender row rd)"

fun organize ::
  "ledger \<Rightarrow> lists option \<Rightarrow> lists option \<Rightarrow> color_profile option \<Rightarrow> bool \<Rightarrow> bool
     \<Rightarrow> transaction list \<Rightarrow> rowdict \<Rightarrow> error + rowdict" where
  "organize db sender_lists target_lists color_profile resolve active [] rd = Inr rd"
| "organize db sender_lists target_lists color_profile resolve active (t # ts) rd =
     (case ip_by_id db (sender_ip_id t) of
        None \<Rightarrow> Inl AttributeError
      | Some s \<Rightarrow>
          (case ip_by_id db (target_ip_id t) of
             None \<Rightarrow> Inl AttributeError
           | Some g \<Rightarrow>
               if lists_reject sender_lists (ip_value s) then
                 organize db sender_lists target_lists color_profile resolve active ts rd
               else if lists_reject target_lists (ip_value g) then
                 organize db sender_lists target_lists color_profile resolve active ts rd
               else
                 organize db sender_lists target_lists color_profile resolve active ts
                   (rowdict_append (ip_value s)
                      (make_row db color_profile resolve active
                         (map_of rd (ip_value s) = None) t s g) rd)))"

text \<open>The second loop: the groups in dictionary order, styled by the parity of the counter.\<close>

fun restructure ::
  "(string \<Rightarrow> string \<Rightarrow> string) \<Rightarrow> color_profile option \<Rightarrow> rowdict \<Rightarrow> nat
     \<Rightarrow> string list list" where
  "restructure stylize color_profile [] counter = []"
| "restructure stylize color_profile ((sender, irows) # rd) counter =
     (case color_profile of
        Some c \<Rightarrow>
          if (counter + 1) mod 2 \<noteq> 0 then map (style_odd stylize c) irows
          else map (style_even stylize c) irows
      | None \<Rightarrow> irows)
     @ restructure stylize color_profile rd (counter + 1)"

definition build_headers ::
  "(string \<Rightarrow> string \<Rightarrow> string) \<Rightarrow> color_profile option \<Rightarrow> bool \<Rightarrow> bool \<Rightarrow> string list" where
  "build_headers stylize color_profile resolve active =
     (let h1 = (if active then [''Sender'', ''Target'', ''TS'', ''ARP#'']
                else [''Sender'', ''Target'', ''ARP#'']);
          h2 = (if resolve then h1 @ [''Sender PTR'', ''Target PTR''] else h1)
      in case color_profile of Some c \<Rightarrow> style_header stylize c h2 | None \<Rightarrow> h2)"

definition get_output ::
  "(string \<Rightarrow> string \<Rightarrow> string) \<Rightarrow> ledger \<Rightarrow> lists option \<Rightarrow> lists option
     \<Rightarrow> color_profile option \<Rightarrow> bool \<Rightarrow> bool \<Rightarrow> error + report" where
  "get_output stylize db sender_lists target_lists color_profile resolve active =
     (let txs = query_transactions_desc db in
      if txs = [] then Inr (Message no_records)
      else
        (case organize db sender_lists target_lists color_profile resolve active txs [] of
           Inl e \<Rightarrow> Inl e
         | Inr rd \<Rightarrow>
             Inr (Table (build_headers stylize color_profile resolve active)
                    (restructure stylize color_profile rd 0))))"

section \<open>Files and offline analysis\<close>

text \<open>
  The file system maps a path to what is stored there. A session on a database file
  reads and commits the ledger stored at its path. Where the code creates or removes
  a file, \<open>creatable\<close> says at which paths the file system lets it: the directory of
  the path exists and can be written.
\<close>

datatype node = Directory | SqliteFile ledger | PcapFile "packet list"

type_synonym fs = "string \<Rightarrow> node option"



text \<open>
  \<^verbatim>\<open>create_db\<close>: removes the file when asked to overwrite, creates the empty tables
  when the path does not exist (or was overwritten), and leaves an existing file alone.
  Removing a directory fails, and so does removing a file where the file system does
  not allow it; \<^verbatim>\<open>create_all\<close> fails with the database's \<^verbatim>\<open>OperationalError\<close> when the
  file cannot be created.
\<close>

definition create_db ::
  "(string \<Rightarrow> bool) \<Rightarrow> fs \<Rightarrow> string \<Rightarrow> bool \<Rightarrow> fs \<times> error option" where
  "create_db creatable files dbfile overwrite =
     (if files dbfile \<noteq> None \<and> overwrite then
        (case files dbfile of
           Some Directory \<Rightarrow> (files, Some (IsADirectoryError dbfile))
         | _ \<Rightarrow>
             if creatable dbfile then (files(dbfile \<mapsto> SqliteFile empty_ledger), None)
             else (files, Some (PermissionError dbfile)))
      else if files dbfile = None \<or> overwrite then
        (if creatable dbfile then (files(dbfile \<mapsto> SqliteFile empty_ledger), None)
         else (files, Some (OperationalError dbfile)))
      else (files, None))"

text \<open>A query through a session: the ledger stored at the path, if it is a database.\<close>

definition read_db :: "fs \<Rightarrow> string \<Rightarrow> error + ledger" where
  "read_db files dbfile =
     (case files dbfile of
        Some (SqliteFile db) \<Rightarrow> Inr db
      | _ \<Rightarrow> Inl (DatabaseError dbfile))"

text \<open>\<^verbatim>\<open>rdpcap\<close>: the packets of a capture file; opening a missing path fails.\<close>

definition rdpcap :: "fs \<Rightarrow> string \<Rightarrow> error + packet list" where
  "rdpcap files pfile =
     (case files pfile of
        None \<Rightarrow> Inl (FileNotFoundError pfile)
      | Some Directory \<Rightarrow> Inl (IsADirectoryError pfile)
      | Some (SqliteFile _) \<Rightarrow> Inl (ScapyError pfile)
      | Some (PcapFile pkts) \<Rightarrow> Inr pkts)"

text \<open>The body of the inner loop of the SQLite import, for one source transaction.\<close>

definition merge_transaction :: "network \<Rightarrow> ledger \<Rightarrow> transaction \<Rightarrow> ledger \<Rightarrow> error + ledger" where
  "merge_transaction net src t out =
     (case ip_by_id src (sender_ip_id t) of
        None \<Rightarrow> Inl AttributeError
      | Some ts \<Rightarrow>
          (case ip_by_id src (target_ip_id t) of
             None \<Rightarrow> Inl AttributeError
           | Some tt \<Rightarrow>
               (let sptr = (case ptr_of src ts of [] \<Rightarrow> None | p # _ \<Rightarrow> Some (ptr_value p));
                    tptr = (case ptr_of src tt of [] \<Rightarrow> None | p # _ \<Rightarrow> Some (ptr_value p));
                    (sender, out1, fx1) =
                       get_or_create_ip net (ip_value ts) out False sptr None False;
                    (target, out2, fx2) =
                       get_or_create_ip net (ip_value tt) out1 False tptr None False
                in
                  (case find_transaction out2 (ip_id sender) (ip_id target) of
                     Some _ \<Rightarrow>
                       Inr (out2\<lparr>transactions :=
                              update_first
                                (\<lambda>x. sender_ip_id x = ip_id sender \<and> target_ip_id x = ip_id target)
                                (\<lambda>x. x\<lparr>count := count x + count t\<rparr>) (transactions out2)\<rparr>)
                   | None \<Rightarrow>
                       Inr (out2\<lparr>transactions := transactions out2 @
                              [\<lparr>sender_ip_id = ip_id sender, target_ip_id = ip_id target,
                                count = count t\<rparr>]\<rparr>)))))"

text \<open>
  The inner loop: every iteration commits, so an error leaves the destination as the
  earlier iterations made it.
\<close>

fun merge_ledger :: "network \<Rightarrow> ledger \<Rightarrow> transaction list \<Rightarrow> ledger \<Rightarrow> ledger \<times> error option" where
  "merge_ledger net src [] out = (out, None)"
| "merge_ledger net src (t # ts) out =
     (case merge_transaction net src t out of
        Inl e \<Rightarrow> (out, Some e)
      | Inr out1 \<Rightarrow> merge_ledger net src ts out1)"

text \<open>The loop over the SQLite files; the destination session is the file \<^verbatim>\<open>outfile\<close>.\<close>

fun analyze_sqlite ::
  "(string \<Rightarrow> bool) \<Rightarrow> network \<Rightarrow> string \<Rightarrow> string list \<Rightarrow> fs \<Rightarrow> fs \<times> error option" where
  "analyze_sqlite creatable net outfile [] files = (files, None)"
| "analyze_sqlite creatable net outfile (sfile # sfiles) files =
     (case create_db creatable files sfile False of
        (files1, Some e) \<Rightarrow> (files1, Some e)
      | (files1, None) \<Rightarrow>
          (case read_db files1 sfile of
             Inl e \<Rightarrow> (files1, Some e)
           | Inr src \<Rightarrow>
               (case read_db files1 outfile of
                  Inl e \<Rightarrow> (files1, Some e)
                | Inr out \<Rightarrow>
                    (case merge_ledger net src (transactions src) out of
                       (out1, Some e) \<Rightarrow> (files1(outfile \<mapsto> SqliteFile out1), Some e)
                     | (out1, None) \<Rightarrow>
                         analyze_sqlite creatable net outfile sfiles
                           (files1(outfile \<mapsto> SqliteFile out1))))))"

text \<open>
  The loop over the capture files: the packets are kept when \<^verbatim>\<open>filter_packet\<close>, called
  without lists, accepts them, and go to \<^verbatim>\<open>handle_packets\<close> with its defaults.
\<close>

fun analyze_pcap :: "network \<Rightarrow> string \<Rightarrow> string list \<Rightarrow> fs \<Rightarrow> fs \<times> error option" where
  "analyze_pcap net outfile [] files = (files, None)"
| "analyze_pcap net outfile (pfile # pfiles) files =
     (case rdpcap files pfile of
        Inl e \<Rightarrow> (files, Some e)
      | Inr pkts \<Rightarrow>
          (let packets = filter (\<lambda>p. filter_packet p None None \<noteq> None) pkts in
           case read_db files outfile of
             Inl e \<Rightarrow> (files, Some e)
           | Inr out \<Rightarrow>
               (case handle_packets net packets out False False None of
                  Inl e \<Rightarrow> (files, Some e)
                | Inr (out1, fx) \<Rightarrow>
                    analyze_pcap net outfile pfiles (files(outfile \<mapsto> SqliteFile out1)))))"

definition analyze ::
  "(string \<Rightarrow> bool) \<Rightarrow> network \<Rightarrow> (string \<Rightarrow> string \<Rightarrow> string) \<Rightarrow> fs \<Rightarrow> string
     \<Rightarrow> lists option \<Rightarrow> lists option
     \<Rightarrow> string list \<Rightarrow> string list \<Rightarrow> color_profile option \<Rightarrow> bool
     \<Rightarrow> fs \<times> (error + report)" where
  "analyze creatable net stylize files database_output_file sender_lists target_lists
      pcap_files sqlite_files color_profile resolve =
     (case create_db creatable files database_output_file True of
        (files1, Some e) \<Rightarrow> (files1, Inl e)
      | (files1, None) \<Rightarrow>
          (case analyze_sqlite creatable net database_output_file sqlite_files files1 of
             (files2, Some e) \<Rightarrow> (files2, Inl e)
           | (files2, None) \<Rightarrow>
               (case analyze_pcap net database_output_file pcap_files files2 of
                  (files3, Some e) \<Rightarrow> (files3, Inl e)
                | (files3, None) \<Rightarrow>
                    (case read_db files3 database_output_file of
                       Inl e \<Rightarrow> (files3, Inl e)
                     | Inr out \<Rightarrow>
                         (files3,
                          get_output stylize out sender_lists target_lists
                            color_profile resolve False)))))"

section \<open>Observations and invariants\<close>

text \<open>
  What \<^verbatim>\<open>get_or_create_ip\<close> adds on its creation path: the new row as it is after
  the optional ARP probe, the reverse-name row (if any) and the network calls made.
\<close>

definition created_ip :: "network \<Rightarrow> string \<Rightarrow> ledger \<Rightarrow> string option \<Rightarrow> bool \<Rightarrow> ip" where
  "created_ip net v db interface active =
     \<lparr>ip_id = next_id (ips db), ip_value = v,
      mac_address =
        (if active \<and> truthy (arp_request net interface v) then arp_request net interface v
         else None),
      arp_resolve_attempted = active\<rparr>"

definition created_ptrs :: "network \<Rightarrow> string \<Rightarrow> ledger \<Rightarrow> bool \<Rightarrow> string option \<Rightarrow> ptr list" where
  "created_ptrs net v db resolve ptr_arg =
     (case (if truthy ptr_arg then ptr_arg
            else if resolve \<and> truthy (reverse_resolve net v) then reverse_resolve net v
            else None) of
        None \<Rightarrow> []
      | Some p \<Rightarrow> [\<lparr>ptr_ip_id = next_id (ips db), ptr_value = p\<rparr>])"

definition created_fx :: "string \<Rightarrow> bool \<Rightarrow> string option \<Rightarrow> string option \<Rightarrow> bool \<Rightarrow> effect list" where
  "created_fx v resolve ptr_arg interface active =
     (if \<not> truthy ptr_arg \<and> resolve then [DnsQuery v] else [])
     @ (if active then [ArpProbe interface v] else [])"

text \<open>
  A well-formed ledger: address values and keys are unique, every transaction and
  reverse-name row refers to an existing address, the pair of keys of a transaction is
  unique, and a recorded hardware address is not the empty string.
\<close>

definition tx_key :: "transaction \<Rightarrow> nat \<times> nat" where
  "tx_key t = (sender_ip_id t, target_ip_id t)"

definition ledger_ok :: "ledger \<Rightarrow> bool" where
  "ledger_ok db \<longleftrightarrow>
     distinct (map ip_value (ips db)) \<and>
     distinct (map ip_id (ips db)) \<and>
     (\<forall>t\<in>set (transactions db).
        sender_ip_id t \<in> ip_id ` set (ips db) \<and> target_ip_id t \<in> ip_id ` set (ips db)) \<and>
     distinct (map tx_key (transactions db)) \<and>
     (\<forall>p\<in>set (ptrs db). ptr_ip_id p \<in> ip_id ` set (ips db)) \<and>
     (\<forall>i\<in>set (ips db). mac_address i \<noteq> Some [])"

text \<open>
  The transactions of an ordered pair of address values, and the total of their counts.
\<close>

definition tx_pair :: "ledger \<Rightarrow> transaction \<Rightarrow> string option \<times> string option" where
  "tx_pair db t =
     (map_option ip_value (ip_by_id db (sender_ip_id t)),
      map_option ip_value (ip_by_id db (target_ip_id t)))"

definition txs_for :: "ledger \<Rightarrow> string \<Rightarrow> string \<Rightarrow> transaction list" where
  "txs_for db a b = filter (\<lambda>t. tx_pair db t = (Some a, Some b)) (transactions db)"

definition pair_count :: "ledger \<Rightarrow> string \<Rightarrow> string \<Rightarrow> int" where
  "pair_count db a b = sum_list (map count (txs_for db a b))"

text \<open>
  The update both \<^verbatim>\<open>handle_packets\<close> (with \<open>k = 1\<close>) and the SQLite import (with the
  source count) make on the transaction table.
\<close>

definition upsert_tx :: "ledger \<Rightarrow> nat \<Rightarrow> nat \<Rightarrow> int \<Rightarrow> ledger" where
  "upsert_tx db s t k =
     (case find_transaction db s t of
        None \<Rightarrow>
          db\<lparr>transactions := transactions db @
               [\<lparr>sender_ip_id = s, target_ip_id = t, count = k\<rparr>]\<rparr>
      | Some _ \<Rightarrow>
          db\<lparr>transactions :=
               update_first (\<lambda>x. sender_ip_id x = s \<and> target_ip_id x = t)
                 (\<lambda>x. x\<lparr>count := count x + k\<rparr>) (transactions db)\<rparr>)"

text \<open>Concrete inputs for the examples: a network that never answers, a who-has packet.\<close>

definition quiet_net :: network where
  "quiet_net = \<lparr>dns_answer = (\<lambda>a. None), arp_answer = (\<lambda>i a. None)\<rparr>"

definition who_has :: "string \<Rightarrow> string \<Rightarrow> packet" where
  "who_has a b = Packet (Some \<lparr>arp_op = 1, psrc = a, pdst = b\<rparr>)"

text \<open>A sequence of calls of \<^verbatim>\<open>get_or_create_ip\<close>, each with its own arguments.\<close>

type_synonym ip_call = "string \<times> bool \<times> string option \<times> string option \<times> bool"

fun get_or_create_ips :: "network \<Rightarrow> ip_call list \<Rightarrow> ledger \<Rightarrow> ledger" where
  "get_or_create_ips net [] db = db"
| "get_or_create_ips net ((v, resolve, ptr_arg, interface, active) # calls) db =
     (case get_or_create_ip net v db resolve ptr_arg interface active of
        (i, db1, fx) \<Rightarrow> get_or_create_ips net calls db1)"

definition ip_A :: ip where
  "ip_A = \<lparr>ip_id = 1, ip_value = ''A'', mac_address = None, arp_resolve_attempted = False\<rparr>"

text \<open>The addresses probed and the addresses looked up, in the order of the calls.\<close>

definition probes :: "effect list \<Rightarrow> string list" where
  "probes fx = concat (map (\<lambda>e. case e of ArpProbe i a \<Rightarrow> [a] | DnsQuery a \<Rightarrow> []) fx)"

definition queries :: "effect list \<Rightarrow> string list" where
  "queries fx = concat (map (\<lambda>e. case e of DnsQuery a \<Rightarrow> [a] | ArpProbe i a \<Rightarrow> []) fx)"

text \<open>
  What a batch records for an entity it creates: the reverse-name rows (one when the
  lookup is enabled and answers a non-empty name, none otherwise) and the hardware
  address (the answer of the probe when the entity was probed and the probe answered).
\<close>

definition ptr_rows :: "network \<Rightarrow> bool \<Rightarrow> ip \<Rightarrow> ptr list" where
  "ptr_rows net resolve i =
     (if resolve then
        (case reverse_resolve net (ip_value i) of
           Some p \<Rightarrow> if p \<noteq> [] then [\<lparr>ptr_ip_id = ip_id i, ptr_value = p\<rparr>] else []
         | None \<Rightarrow> [])
      else [])"

definition probed_mac :: "network \<Rightarrow> string option \<Rightarrow> ip \<Rightarrow> string option" where
  "probed_mac net interface i =
     (if arp_resolve_attempted i \<and> truthy (arp_request net interface (ip_value i))
      then arp_request net interface (ip_value i) else None)"

text \<open>
  What a batch does to the tables of addresses and reverse names: it appends the rows
  \<open>news\<close> of new entities, with fresh keys and values, and their reverse-name rows;
  the probes are those of the new entities marked as attempted, the lookups those of
  all new entities.
\<close>

definition ingested ::
  "network \<Rightarrow> bool \<Rightarrow> string option \<Rightarrow> ledger \<Rightarrow> ip list \<Rightarrow> effect list \<Rightarrow> ledger \<Rightarrow> bool" where
  "ingested net resolve interface db news fx db' \<longleftrightarrow>
     ips db' = ips db @ news \<and>
     distinct (map ip_value news) \<and>
     ip_value ` set news \<inter> ip_value ` set (ips db) = {} \<and>
     distinct (map ip_id news) \<and>
     ip_id ` set news \<inter> ip_id ` set (ips db) = {} \<and>
     probes fx = map ip_value (filter arp_resolve_attempted news) \<and>
     (\<forall>i\<in>set news. mac_address i = probed_mac net interface i) \<and>
     queries fx = (if resolve then map ip_value news else []) \<and>
     ptrs db' = ptrs db @ concat (map (ptr_rows net resolve) news)"

text \<open>
  An example batch: \<open>A\<close> asks twice for \<open>B\<close>, which answers the probe, and once for
  \<open>C\<close>, which does not; only \<open>A\<close> has a reverse name.
\<close>

definition demo_net :: network where
  "demo_net =
     \<lparr>dns_answer = (\<lambda>a. if a = ''A'' then Some ''a.lan'' else None),
      arp_answer = (\<lambda>i a. if a = ''B'' then Some ''aa:bb'' else None)\<rparr>"

definition demo_ledger :: ledger where
  "demo_ledger =
     \<lparr>ips =
        [\<lparr>ip_id = 1, ip_value = ''A'', mac_address = None, arp_resolve_attempted = False\<rparr>,
         \<lparr>ip_id = 2, ip_value = ''B'', mac_address = Some ''aa:bb'', arp_resolve_attempted = True\<rparr>,
         \<lparr>ip_id = 3, ip_value = ''C'', mac_address = None, arp_resolve_attempted = True\<rparr>],
      ptrs = [\<lparr>ptr_ip_id = 1, ptr_value = ''a.lan''\<rparr>],
      transactions =
        [\<lparr>sender_ip_id = 1, target_ip_id = 2, count = 2\<rparr>,
         \<lparr>sender_ip_id = 1, target_ip_id = 3, count = 1\<rparr>]\<rparr>"

definition demo_fx :: "effect list" where
  "demo_fx =
     [DnsQuery ''A'', DnsQuery ''B'', ArpProbe (Some ''eth0'') ''B'',
      DnsQuery ''C'', ArpProbe (Some ''eth0'') ''C'']"

text \<open>An example ledger: the single pair \<open>(A, B)\<close> with a given count.\<close>

definition ledger_ab :: "int \<Rightarrow> ledger" where
  "ledger_ab n =
     \<lparr>ips =
        [\<lparr>ip_id = 1, ip_value = ''A'', mac_address = None, arp_resolve_attempted = False\<rparr>,
         \<lparr>ip_id = 2, ip_value = ''B'', mac_address = None, arp_resolve_attempted = False\<rparr>],
      ptrs = [],
      transactions = [\<lparr>sender_ip_id = 1, target_ip_id = 2, count = n\<rparr>]\<rparr>"

text \<open>A file system whose only directory is the working directory.\<close>

definition cwd_only :: "string \<Rightarrow> bool" where
  "cwd_only path = (CHR ''/'' \<notin> set path)"

definition snapshot_files :: fs where
  "snapshot_files = [''d3.db'' \<mapsto> SqliteFile (ledger_ab 3), ''s2.db'' \<mapsto> SqliteFile (ledger_ab 2)]"

text \<open>
  The report, specified. An entry is what an accepted transaction contributes: its
  sender, its row when it opens the sender's group (sender labelled) and its row
  otherwise (sender blank). \<open>grouped\<close> takes the first entry, gathers every later
  entry of the same sender behind it, in order, and goes on with the entries of the
  other senders.
\<close>

type_synonym entry = "string \<times> string list \<times> string list"

definition entry_of ::
  "ledger \<Rightarrow> lists option \<Rightarrow> lists option \<Rightarrow> color_profile option \<Rightarrow> bool \<Rightarrow> bool
     \<Rightarrow> transaction \<Rightarrow> entry option" where
  "entry_of db sender_lists target_lists color_profile resolve active t =
     (case ip_by_id db (sender_ip_id t) of
        None \<Rightarrow> None
      | Some s \<Rightarrow>
          (case ip_by_id db (target_ip_id t) of
             None \<Rightarrow> None
           | Some g \<Rightarrow>
               if lists_reject sender_lists (ip_value s) \<or> lists_reject target_lists (ip_value g)
               then None
               else Some (ip_value s,
                          make_row db color_profile resolve active True t s g,
                          make_row db color_profile resolve active False t s g)))"

definition entries ::
  "ledger \<Rightarrow> lists option \<Rightarrow> lists option \<Rightarrow> color_profile option \<Rightarrow> bool \<Rightarrow> bool
     \<Rightarrow> transaction list \<Rightarrow> entry list" where
  "entries db sender_lists target_lists color_profile resolve active ts =
     List.map_filter (entry_of db sender_lists target_lists color_profile resolve active) ts"

function grouped :: "entry list \<Rightarrow> rowdict" where
  "grouped [] = []"
| "grouped ((k, r1, r0) # es) =
     (k, r1 # map (\<lambda>e. snd (snd e)) (filter (\<lambda>e. fst e = k) es))
     # grouped (filter (\<lambda>e. fst e \<noteq> k) es)"
  by pat_completeness auto
termination
  by (relation "measure length") (auto simp: less_Suc_eq_le)

fun fold_entries :: "entry list \<Rightarrow> rowdict \<Rightarrow> rowdict" where
  "fold_entries [] rd = rd"
| "fold_entries ((k, r1, r0) # es) rd =
     fold_entries es (rowdict_append k (if map_of rd k = None then r1 else r0) rd)"

text \<open>A transaction the lists exclude from the report.\<close>

definition excluded :: "ledger \<Rightarrow> lists option \<Rightarrow> lists option \<Rightarrow> transaction \<Rightarrow> bool" where
  "excluded db sender_lists target_lists t =
     (case ip_by_id db (sender_ip_id t) of
        None \<Rightarrow> False
      | Some s \<Rightarrow>
          (case ip_by_id db (target_ip_id t) of
             None \<Rightarrow> False
           | Some g \<Rightarrow>
               lists_reject sender_lists (ip_value s) \<or> lists_reject target_lists (ip_value g)))"

text \<open>
  An example ledger with interleaved senders: \<open>A\<close> asks three times for \<open>B\<close> and once
  for \<open>E\<close>, \<open>C\<close> asks twice for \<open>D\<close>.
\<close>

definition interleaved_ledger :: ledger where
  "interleaved_ledger =
     \<lparr>ips =
        [\<lparr>ip_id = 1, ip_value = ''A'', mac_address = None, arp_resolve_attempted = False\<rparr>,
         \<lparr>ip_id = 2, ip_value = ''B'', mac_address = None, arp_resolve_attempted = False\<rparr>,
         \<lparr>ip_id = 3, ip_value = ''C'', mac_address = None, arp_resolve_attempted = False\<rparr>,
         \<lparr>ip_id = 4, ip_value = ''D'', mac_address = None, arp_resolve_attempted = False\<rparr>,
         \<lparr>ip_id = 5, ip_value = ''E'', mac_address = None, arp_resolve_attempted = False\<rparr>],
      ptrs = [],
      transactions =
        [\<lparr>sender_ip_id = 1, target_ip_id = 2, count = 3\<rparr>,
         \<lparr>sender_ip_id = 3, target_ip_id = 4, count = 2\<rparr>,
         \<lparr>sender_ip_id = 1, target_ip_id = 5, count = 1\<rparr>]\<rparr>"

text \<open>A capture file with one who-has request from \<open>X\<close>, and a sender list that denies \<open>X\<close>.\<close>

definition capture_files :: fs where
  "capture_files = [''cap.pcap'' \<mapsto> PcapFile [who_has ''X'' ''B'']]"

definition deny_X :: lists where
  "deny_X a = (a \<noteq> ''X'')"

definition ledger_xb :: ledger where
  "ledger_xb =
     \<lparr>ips =
        [\<lparr>ip_id = 1, ip_value = ''X'', mac_address = None, arp_resolve_attempted = False\<rparr>,
         \<lparr>ip_id = 2, ip_value = ''B'', mac_address = None, arp_resolve_attempted = False\<rparr>],
      ptrs = [],
      transactions = [\<lparr>sender_ip_id = 1, target_ip_id = 2, count = 1\<rparr>]\<rparr>"

section \<open>The registry and the ledger keep the ledger well formed\<close>

lemma next_id_greater: "i \<in> set xs \<Longrightarrow> ip_id i < next_id xs"
  by (induction xs) (auto simp: next_id_def)

lemma update_first_fresh:
  "\<forall>x\<in>set xs. \<not> P x \<Longrightarrow> update_first P f (xs @ [y]) = xs @ [if P y then f y else y]"
  by (induction xs) auto

lemma update_first_new_ip:
  "update_first (\<lambda>i. ip_id i = next_id xs) f (xs @ [y]) = xs @ [if ip_id y = next_id xs then f y else y]"
  by (rule update_first_fresh) (auto dest: next_id_greater)

lemma get_or_create_ip_found:
  "find (\<lambda>i. ip_value i = v) (ips db) = Some i \<Longrightarrow>
   get_or_create_ip net v db resolve ptr_arg interface active = (i, db, [])"
  by (simp add: get_or_create_ip_def)

lemma get_or_create_ip_new:
  assumes "find (\<lambda>i. ip_value i = v) (ips db) = None"
  shows "get_or_create_ip net v db resolve ptr_arg interface active =
     (created_ip net v db interface active,
      db\<lparr>ips := ips db @ [created_ip net v db interface active],
         ptrs := ptrs db @ created_ptrs net v db resolve ptr_arg\<rparr>,
      created_fx v resolve ptr_arg interface active)"
  using assms
  by (auto simp: get_or_create_ip_def Let_def created_ip_def created_ptrs_def created_fx_def
      add_ptr_def update_first_new_ip truthy_def split: option.splits)

lemma get_or_create_ip_cases:
  assumes "get_or_create_ip net v db resolve ptr_arg interface active = (i, db', fx)"
  shows "(find (\<lambda>i. ip_value i = v) (ips db) = Some i \<and> db' = db \<and> fx = []) \<or>
         (find (\<lambda>i. ip_value i = v) (ips db) = None \<and>
          i = created_ip net v db interface active \<and>
          db' = db\<lparr>ips := ips db @ [created_ip net v db interface active],
                   ptrs := ptrs db @ created_ptrs net v db resolve ptr_arg\<rparr> \<and>
          fx = created_fx v resolve ptr_arg interface active)"
proof (cases "find (\<lambda>i. ip_value i = v) (ips db)")
  case None
  with assms show ?thesis by (auto simp: get_or_create_ip_new)
next
  case (Some j)
  with assms show ?thesis by (simp add: get_or_create_ip_found)
qed

lemma created_ip_simps:
  "ip_id (created_ip net v db interface active) = next_id (ips db)"
  "ip_value (created_ip net v db interface active) = v"
  "mac_address (created_ip net v db interface active) \<noteq> Some []"
  by (auto simp: created_ip_def truthy_def split: option.splits)

lemma created_ptrs_ref: "p \<in> set (created_ptrs net v db resolve ptr_arg) \<Longrightarrow> ptr_ip_id p = next_id (ips db)"
  by (auto simp: created_ptrs_def split: option.splits if_splits)

lemma next_id_notin: "next_id xs \<notin> ip_id ` set xs"
  using next_id_greater by fastforce

lemma get_or_create_ip_ok:
  assumes "ledger_ok db"
    and "get_or_create_ip net v db resolve ptr_arg interface active = (i, db', fx)"
  shows "ledger_ok db'"
  using get_or_create_ip_cases[OF assms(2)]
proof
  assume "find (\<lambda>i. ip_value i = v) (ips db) = Some i \<and> db' = db \<and> fx = []"
  with assms(1) show ?thesis by simp
next
  assume new: "find (\<lambda>i. ip_value i = v) (ips db) = None \<and>
          i = created_ip net v db interface active \<and>
          db' = db\<lparr>ips := ips db @ [created_ip net v db interface active],
                   ptrs := ptrs db @ created_ptrs net v db resolve ptr_arg\<rparr> \<and>
          fx = created_fx v resolve ptr_arg interface active"
  then have fresh: "v \<notin> ip_value ` set (ips db)"
    by (auto simp: find_None_iff)
  from new assms(1) fresh show ?thesis
    using next_id_notin[of "ips db"]
    by (auto simp: ledger_ok_def created_ip_simps dest: created_ptrs_ref)
qed

lemma get_or_create_ip_result:
  assumes "get_or_create_ip net v db resolve ptr_arg interface active = (i, db', fx)"
  shows "i \<in> set (ips db')" and "ip_value i = v" and "transactions db' = transactions db"
    and "\<exists>new. ips db' = ips db @ new"
  using get_or_create_ip_cases[OF assms]
  by (auto simp: created_ip_simps find_Some_iff in_set_conv_nth)

lemma find_by_id_mem:
  "distinct (map ip_id xs) \<Longrightarrow> i \<in> set xs \<Longrightarrow> find (\<lambda>x. ip_id x = ip_id i) xs = Some i"
  by (induction xs) auto

lemma find_by_value_mem:
  "distinct (map ip_value xs) \<Longrightarrow> i \<in> set xs \<Longrightarrow> find (\<lambda>x. ip_value x = ip_value i) xs = Some i"
  by (induction xs) auto

lemma find_append_mem:
  "k \<in> f ` set xs \<Longrightarrow> find (\<lambda>x. f x = k) (xs @ ys) = find (\<lambda>x. f x = k) xs"
  by (induction xs) auto

lemma tx_pair_ips_append:
  assumes "sender_ip_id t \<in> ip_id ` set (ips db)" and "target_ip_id t \<in> ip_id ` set (ips db)"
    and "ips db' = ips db @ new"
  shows "tx_pair db' t = tx_pair db t"
  using assms by (simp add: tx_pair_def ip_by_id_def find_append_mem)

lemma txs_for_ips_append:
  assumes "ledger_ok db" and "ips db' = ips db @ new" and "transactions db' = transactions db"
  shows "txs_for db' c d = txs_for db c d"
proof -
  have "\<forall>t\<in>set (transactions db). tx_pair db' t = tx_pair db t"
    using assms(1,2) by (auto simp: ledger_ok_def intro!: tx_pair_ips_append)
  then show ?thesis
    unfolding txs_for_def assms(3) by (auto intro: filter_cong)
qed

lemma tx_pair_key:
  assumes "ledger_ok db" and "s \<in> set (ips db)" and "g \<in> set (ips db)"
  shows "tx_pair db t = (Some (ip_value s), Some (ip_value g)) \<longleftrightarrow>
         sender_ip_id t = ip_id s \<and> target_ip_id t = ip_id g"
proof
  assume "sender_ip_id t = ip_id s \<and> target_ip_id t = ip_id g"
  with assms show "tx_pair db t = (Some (ip_value s), Some (ip_value g))"
    by (simp add: tx_pair_def ip_by_id_def ledger_ok_def find_by_id_mem)
next
  assume h: "tx_pair db t = (Some (ip_value s), Some (ip_value g))"
  then obtain x y where x: "find (\<lambda>x. ip_id x = sender_ip_id t) (ips db) = Some x" "ip_value x = ip_value s"
    and y: "find (\<lambda>x. ip_id x = target_ip_id t) (ips db) = Some y" "ip_value y = ip_value g"
    by (auto simp: tx_pair_def ip_by_id_def)
  from x(1) have xin: "x \<in> set (ips db)" "ip_id x = sender_ip_id t"
    by (auto simp: find_Some_iff)
  from y(1) have yin: "y \<in> set (ips db)" "ip_id y = target_ip_id t"
    by (auto simp: find_Some_iff)
  have dv: "distinct (map ip_value (ips db))" using assms(1) by (simp add: ledger_ok_def)
  have "x = s" using dv xin(1) assms(2) x(2) by (meson distinct_map inj_onD)
  moreover have "y = g" using dv yin(1) assms(3) y(2) by (meson distinct_map inj_onD)
  ultimately show "sender_ip_id t = ip_id s \<and> target_ip_id t = ip_id g"
    using xin(2) yin(2) by simp
qed

lemma tx_pair_count_update [simp]: "tx_pair db (t\<lparr>count := k\<rparr>) = tx_pair db t"
  by (simp add: tx_pair_def)

lemma tx_pair_transactions_update [simp]: "tx_pair (db\<lparr>transactions := x\<rparr>) t = tx_pair db t"
  by (simp add: tx_pair_def ip_by_id_def)

lemma filter_update_first_other:
  "(\<forall>x. P x \<longrightarrow> \<not> Q x) \<Longrightarrow> (\<forall>x. Q (f x) = Q x) \<Longrightarrow> filter Q (update_first P f xs) = filter Q xs"
  by (induction xs) auto

lemma sum_update_first:
  fixes f :: "transaction \<Rightarrow> transaction"
  assumes "find P xs \<noteq> None" and "\<forall>x. P x \<longrightarrow> Q x" and "\<forall>x. Q (f x) = Q x"
    and "\<forall>x. count (f x) = count x + k"
  shows "sum_list (map count (filter Q (update_first P f xs))) = sum_list (map count (filter Q xs)) + k"
  using assms by (induction xs) auto

lemma map_key_update_first:
  "(\<forall>x. g (f x) = g x) \<Longrightarrow> map g (update_first P f xs) = map g xs"
  by (induction xs) auto

lemma upsert_tx_ips [simp]: "ips (upsert_tx db s t k) = ips db"
  and upsert_tx_ptrs [simp]: "ptrs (upsert_tx db s t k) = ptrs db"
  by (simp_all add: upsert_tx_def split: option.splits)

lemma tx_pair_upsert [simp]: "tx_pair (upsert_tx db s t k) x = tx_pair db x"
  by (simp add: tx_pair_def ip_by_id_def)

lemma upsert_tx_ok:
  assumes "ledger_ok db" and "s \<in> set (ips db)" and "g \<in> set (ips db)"
  shows "ledger_ok (upsert_tx db (ip_id s) (ip_id g) k)"
proof (cases "find_transaction db (ip_id s) (ip_id g)")
  case None
  then have "(ip_id s, ip_id g) \<notin> tx_key ` set (transactions db)"
    by (auto simp: find_transaction_def find_None_iff tx_key_def)
  with assms None show ?thesis
    by (auto simp: ledger_ok_def upsert_tx_def tx_key_def)
next
  case (Some x)
  have keys: "map tx_key (update_first P (\<lambda>x. x\<lparr>count := count x + k\<rparr>) (transactions db))
      = map tx_key (transactions db)" for P
    by (rule map_key_update_first) (simp add: tx_key_def)
  have refs: "map sender_ip_id (update_first P (\<lambda>x. x\<lparr>count := count x + k\<rparr>) (transactions db))
      = map sender_ip_id (transactions db)"
     "map target_ip_id (update_first P (\<lambda>x. x\<lparr>count := count x + k\<rparr>) (transactions db))
      = map target_ip_id (transactions db)" for P
    by (rule map_key_update_first, simp)+
  have mem: "t \<in> set xs \<Longrightarrow> f t \<in> f ` set xs" for t :: transaction and xs and f :: "transaction \<Rightarrow> nat"
    by simp
  show ?thesis
    unfolding ledger_ok_def upsert_tx_def Some
    using assms(1) keys
    apply (simp add: ledger_ok_def)
    apply (intro ballI conjI)
     apply (metis (no_types, lifting) refs(1) image_iff list.set_map)
    apply (metis (no_types, lifting) refs(2) image_iff list.set_map)
    done
qed

lemma upsert_tx_pair_count:
  assumes "ledger_ok db" and "s \<in> set (ips db)" and "g \<in> set (ips db)"
  shows "pair_count (upsert_tx db (ip_id s) (ip_id g) k) c d =
         pair_count db c d + (if (c, d) = (ip_value s, ip_value g) then k else 0)"
proof (cases "find_transaction db (ip_id s) (ip_id g)")
  case None
  have "tx_pair db \<lparr>sender_ip_id = ip_id s, target_ip_id = ip_id g, count = k\<rparr>
        = (Some (ip_value s), Some (ip_value g))"
    using tx_pair_key[OF assms] by simp
  then show ?thesis
    using None by (auto simp: pair_count_def txs_for_def upsert_tx_def tx_pair_def ip_by_id_def)
next
  case (Some x)
  let ?P = "\<lambda>x. sender_ip_id x = ip_id s \<and> target_ip_id x = ip_id g"
  let ?f = "\<lambda>x. x\<lparr>count := count x + k\<rparr>"
  let ?Q = "\<lambda>t. tx_pair db t = (Some c, Some d)"
  have tr: "transactions (upsert_tx db (ip_id s) (ip_id g) k) = update_first ?P ?f (transactions db)"
    using Some by (simp add: upsert_tx_def)
  have fnd: "find ?P (transactions db) \<noteq> None"
    using Some by (simp add: find_transaction_def)
  show ?thesis
  proof (cases "(c, d) = (ip_value s, ip_value g)")
    case True
    then have "\<forall>x. ?P x \<longrightarrow> ?Q x" using tx_pair_key[OF assms] by simp
    then have "sum_list (map count (filter ?Q (update_first ?P ?f (transactions db))))
        = sum_list (map count (filter ?Q (transactions db))) + k"
      by (intro sum_update_first[OF fnd]) simp_all
    then show ?thesis using True
      by (simp add: pair_count_def txs_for_def tr)
  next
    case False
    have "tx_pair db x = (Some (ip_value s), Some (ip_value g))" if "?P x" for x
      using tx_pair_key[OF assms, of x] that by blast
    with False have "\<forall>x. ?P x \<longrightarrow> \<not> ?Q x" by auto
    then have "filter ?Q (update_first ?P ?f (transactions db)) = filter ?Q (transactions db)"
      by (intro filter_update_first_other) simp_all
    then show ?thesis using False
      by (auto simp: pair_count_def txs_for_def tr)
  qed
qed

lemma upsert_tx_txs_other:
  assumes "ledger_ok db" and "s \<in> set (ips db)" and "g \<in> set (ips db)"
    and "(c, d) \<noteq> (ip_value s, ip_value g)"
  shows "txs_for (upsert_tx db (ip_id s) (ip_id g) k) c d = txs_for db c d"
proof (cases "find_transaction db (ip_id s) (ip_id g)")
  case None
  have "tx_pair db \<lparr>sender_ip_id = ip_id s, target_ip_id = ip_id g, count = k\<rparr>
        = (Some (ip_value s), Some (ip_value g))"
    using tx_pair_key[OF assms(1-3)] by simp
  with assms(4) show ?thesis
    using None by (auto simp: txs_for_def upsert_tx_def)
next
  case (Some x)
  let ?P = "\<lambda>x. sender_ip_id x = ip_id s \<and> target_ip_id x = ip_id g"
  let ?f = "\<lambda>x. x\<lparr>count := count x + k\<rparr>"
  let ?Q = "\<lambda>t. tx_pair db t = (Some c, Some d)"
  have "tx_pair db x = (Some (ip_value s), Some (ip_value g))" if "?P x" for x
    using tx_pair_key[OF assms(1-3), of x] that by blast
  with assms(4) have "\<forall>x. ?P x \<longrightarrow> \<not> ?Q x" by auto
  then have "filter ?Q (update_first ?P ?f (transactions db)) = filter ?Q (transactions db)"
    by (intro filter_update_first_other) simp_all
  then show ?thesis using Some by (simp add: txs_for_def upsert_tx_def)
qed

lemma set_update_first_exists:
  "find P xs \<noteq> None \<Longrightarrow> \<exists>x\<in>set xs. P x \<and> f x \<in> set (update_first P f xs)"
  by (induction xs) auto

lemma upsert_tx_present:
  assumes "ledger_ok db" and "s \<in> set (ips db)" and "g \<in> set (ips db)"
  shows "txs_for (upsert_tx db (ip_id s) (ip_id g) k) (ip_value s) (ip_value g) \<noteq> []"
proof (cases "find_transaction db (ip_id s) (ip_id g)")
  case None
  have "tx_pair db \<lparr>sender_ip_id = ip_id s, target_ip_id = ip_id g, count = k\<rparr>
        = (Some (ip_value s), Some (ip_value g))"
    using tx_pair_key[OF assms(1-3)] by simp
  then show ?thesis using None by (simp add: txs_for_def upsert_tx_def)
next
  case (Some x)
  let ?P = "\<lambda>x. sender_ip_id x = ip_id s \<and> target_ip_id x = ip_id g"
  let ?f = "\<lambda>x. x\<lparr>count := count x + k\<rparr>"
  have "find ?P (transactions db) \<noteq> None" using Some by (simp add: find_transaction_def)
  from set_update_first_exists[OF this, of ?f]
  obtain y where y: "?P y" "?f y \<in> set (update_first ?P ?f (transactions db))" by blast
  have "tx_pair db (?f y) = (Some (ip_value s), Some (ip_value g))"
    using tx_pair_key[OF assms(1-3), of y] y(1) by simp
  with y(2) have "?f y \<in> set (txs_for (upsert_tx db (ip_id s) (ip_id g) k) (ip_value s) (ip_value g))"
    using Some by (simp add: txs_for_def upsert_tx_def)
  then show ?thesis by auto
qed

lemma filter_at_most_one:
  assumes "distinct (map k xs)"
    and "\<And>x y. x \<in> set xs \<Longrightarrow> y \<in> set xs \<Longrightarrow> Q x \<Longrightarrow> Q y \<Longrightarrow> k x = k y"
  shows "length (filter Q xs) \<le> 1"
  using assms
proof (induction xs)
  case Nil
  then show ?case by simp
next
  case (Cons a xs)
  have ih: "length (filter Q xs) \<le> 1"
  proof (rule Cons.IH)
    show "distinct (map k xs)" using Cons.prems(1) by simp
    show "k x = k y" if "x \<in> set xs" "y \<in> set xs" "Q x" "Q y" for x y
      using Cons.prems(2)[of x y] that by simp
  qed
  show ?case
  proof (cases "Q a")
    case True
    have "filter Q xs = []"
    proof (rule ccontr)
      assume "filter Q xs \<noteq> []"
      then obtain y where y: "y \<in> set xs" "Q y"
        by (auto simp: filter_empty_conv)
      from Cons.prems(1) have "k a \<notin> k ` set xs" by simp
      moreover have "k a = k y" using Cons.prems(2)[of a y] True y by simp
      ultimately show False using y(1) by auto
    qed
    then show ?thesis by simp
  next
    case False
    with ih show ?thesis by simp
  qed
qed

lemma txs_for_at_most_one:
  assumes "ledger_ok db"
  shows "length (txs_for db a b) \<le> 1"
  unfolding txs_for_def
proof (rule filter_at_most_one[where k = tx_key])
  show "distinct (map tx_key (transactions db))" using assms by (simp add: ledger_ok_def)
  show "tx_key x = tx_key y"
    if "x \<in> set (transactions db)" "y \<in> set (transactions db)"
      and hx: "tx_pair db x = (Some a, Some b)" and hy: "tx_pair db y = (Some a, Some b)" for x y
  proof -
    from hx obtain s g where s: "ip_by_id db (sender_ip_id x) = Some s" "ip_value s = a"
      and g: "ip_by_id db (target_ip_id x) = Some g" "ip_value g = b"
      by (auto simp: tx_pair_def)
    from s(1) g(1) have mem: "s \<in> set (ips db)" "g \<in> set (ips db)"
      by (auto simp: ip_by_id_def find_Some_iff)
    from hx hy s(2) g(2) tx_pair_key[OF assms mem] show "tx_key x = tx_key y"
      by (simp add: tx_key_def)
  qed
qed

lemma handle_packet_upsert:
  "handle_packet net pkt db resolve active interface =
     (case get_or_create_ip net (fst pkt) db resolve None None False of
        (sender, db1, fx1) \<Rightarrow>
          (case get_or_create_ip net (snd pkt) db1 resolve None interface active of
             (target, db2, fx2) \<Rightarrow> (upsert_tx db2 (ip_id sender) (ip_id target) 1, fx1 @ fx2)))"
  unfolding handle_packet_def upsert_tx_def Let_def
  by (simp split: prod.split option.split)

lemma lookup_pair_upsert:
  assumes ok: "ledger_ok db"
    and g1: "get_or_create_ip net a db r1 p1 i1 a1 = (s, db1, fx1)"
    and g2: "get_or_create_ip net b db1 r2 p2 i2 a2 = (g, db2, fx2)"
  shows "ledger_ok (upsert_tx db2 (ip_id s) (ip_id g) k)"
    and "pair_count (upsert_tx db2 (ip_id s) (ip_id g) k) c d
           = pair_count db c d + (if (c, d) = (a, b) then k else 0)"
    and "(c, d) \<noteq> (a, b) \<Longrightarrow> txs_for (upsert_tx db2 (ip_id s) (ip_id g) k) c d = txs_for db c d"
    and "txs_for (upsert_tx db2 (ip_id s) (ip_id g) k) a b \<noteq> []"
proof -
  have ok1: "ledger_ok db1" by (rule get_or_create_ip_ok[OF ok g1])
  have ok2: "ledger_ok db2" by (rule get_or_create_ip_ok[OF ok1 g2])
  note r1 = get_or_create_ip_result[OF g1] and r2 = get_or_create_ip_result[OF g2]
  have sin: "s \<in> set (ips db2)" using r1(1) r2(4) by auto
  have gin: "g \<in> set (ips db2)" by (rule r2(1))
  from r1(4) obtain n1 where n1: "ips db1 = ips db @ n1" by blast
  from r2(4) obtain n2 where n2: "ips db2 = ips db1 @ n2" by blast
  have same: "txs_for db2 x y = txs_for db x y" for x y
    by (simp add: txs_for_ips_append[OF ok1 n2 r2(3)] txs_for_ips_append[OF ok n1 r1(3)])
  show "ledger_ok (upsert_tx db2 (ip_id s) (ip_id g) k)"
    by (rule upsert_tx_ok[OF ok2 sin gin])
  show "pair_count (upsert_tx db2 (ip_id s) (ip_id g) k) c d
           = pair_count db c d + (if (c, d) = (a, b) then k else 0)"
    unfolding upsert_tx_pair_count[OF ok2 sin gin]
    by (simp add: r1(2) r2(2) pair_count_def same)
  show "txs_for (upsert_tx db2 (ip_id s) (ip_id g) k) a b \<noteq> []"
    using upsert_tx_present[OF ok2 sin gin] by (simp add: r1(2) r2(2))
  show "txs_for (upsert_tx db2 (ip_id s) (ip_id g) k) c d = txs_for db c d" if "(c, d) \<noteq> (a, b)"
    using upsert_tx_txs_other[OF ok2 sin gin, of c d] that
    by (simp add: r1(2) r2(2) same)
qed

lemma handle_packet_step:
  assumes ok: "ledger_ok db"
    and hp: "handle_packet net (a, b) db resolve active interface = (db', fx)"
  shows "ledger_ok db'"
    and "pair_count db' c d = pair_count db c d + (if (c, d) = (a, b) then 1 else 0)"
    and "(c, d) \<noteq> (a, b) \<Longrightarrow> txs_for db' c d = txs_for db c d"
    and "txs_for db' a b \<noteq> []"
proof -
  obtain s db1 fx1 where g1: "get_or_create_ip net a db resolve None None False = (s, db1, fx1)"
    by (cases "get_or_create_ip net a db resolve None None False") auto
  obtain g db2 fx2 where g2: "get_or_create_ip net b db1 resolve None interface active = (g, db2, fx2)"
    by (cases "get_or_create_ip net b db1 resolve None interface active") auto
  have db': "db' = upsert_tx db2 (ip_id s) (ip_id g) 1"
    using hp by (simp add: handle_packet_upsert g1 g2)
  note st = lookup_pair_upsert[OF ok g1 g2, where k = 1]
  show "ledger_ok db'" unfolding db' by (rule st(1))
  show "pair_count db' c d = pair_count db c d + (if (c, d) = (a, b) then 1 else 0)"
    unfolding db' by (rule st(2))
  show "txs_for db' c d = txs_for db c d" if "(c, d) \<noteq> (a, b)"
    unfolding db' by (rule st(3)[OF that])
  show "txs_for db' a b \<noteq> []" unfolding db' by (rule st(4))
qed

lemma handle_packets_loop_counts:
  assumes "ledger_ok db"
    and "handle_packets_loop net pairs db resolve active interface = (db', fx)"
  shows "ledger_ok db' \<and>
         pair_count db' c d = pair_count db c d + int (count_list pairs (c, d)) \<and>
         ((c, d) \<notin> set pairs \<longrightarrow> txs_for db' c d = txs_for db c d) \<and>
         ((c, d) \<in> set pairs \<longrightarrow> txs_for db' c d \<noteq> [])"
  using assms
proof (induction pairs arbitrary: db db' fx)
  case Nil
  then show ?case by simp
next
  case (Cons pkt pairs)
  obtain a b where pkt: "pkt = (a, b)" by (cases pkt)
  obtain db1 fx1 where h1: "handle_packet net (a, b) db resolve active interface = (db1, fx1)"
    by (cases "handle_packet net (a, b) db resolve active interface") auto
  obtain db2 fx2 where h2: "handle_packets_loop net pairs db1 resolve active interface = (db2, fx2)"
    by (cases "handle_packets_loop net pairs db1 resolve active interface") auto
  from Cons.prems(2) have db': "db' = db2" by (simp add: pkt h1 h2)
  note st = handle_packet_step[OF Cons.prems(1) h1]
  note ih = Cons.IH[OF st(1) h2]
  have nonempty: "txs_for db2 c d \<noteq> []" if "(c, d) = (a, b)"
  proof (cases "(c, d) \<in> set pairs")
    case True
    with ih show ?thesis by simp
  next
    case False
    with ih have "txs_for db2 c d = txs_for db1 c d" by simp
    with st(4) that show ?thesis by simp
  qed
  show ?case
    unfolding db' using ih st(2)[of c d] st(3)[of c d] nonempty
    by (auto simp: pkt)
qed

lemma unpack_packets_replicate:
  "arp_layer p = Some ar \<Longrightarrow> unpack_packets (replicate n p) = Inr (replicate n (psrc ar, pdst ar))"
  by (induction n) (simp_all add: unpack_packet_def unpack_arp_def)

lemma count_list_replicate: "count_list (replicate n x) y = (if x = y then n else 0)"
  by (induction n) auto

lemma one_element:
  "length xs \<le> 1 \<Longrightarrow> xs \<noteq> [] \<Longrightarrow> \<exists>x. xs = [x]"
  by (cases xs) auto

section \<open>Counting identical events\<close>

text \<open>
  Claim C1. A batch of \<open>n\<close> identical events \<open>(A, B)\<close>, handled by \<^verbatim>\<open>handle_packets\<close>
  against a well-formed ledger, leaves exactly one transaction for the ordered pair
  \<open>(A, B)\<close>, and its count is the count the pair had before plus \<open>n\<close>: created with
  count 1 by the first event when the pair is new, then incremented by one by each
  later event, so \<open>n\<close> for a pair that was new. The transactions of every other ordered
  pair are left as they were.
\<close>

theorem handle_packets_identical_events:
  assumes "ledger_ok db" and "arp_layer p = Some ar" and "\<not> (active \<and> \<not> truthy interface)"
  shows "\<exists>db' fx. handle_packets net (replicate n p) db resolve active interface = Inr (db', fx) \<and>
          ledger_ok db' \<and>
          (0 < n \<longrightarrow>
             map count (txs_for db' (psrc ar) (pdst ar))
               = [pair_count db (psrc ar) (pdst ar) + int n]) \<and>
          (txs_for db (psrc ar) (pdst ar) = [] \<longrightarrow> 0 < n \<longrightarrow>
             map count (txs_for db' (psrc ar) (pdst ar)) = [int n]) \<and>
          (\<forall>c d. (c, d) \<noteq> (psrc ar, pdst ar) \<longrightarrow> txs_for db' c d = txs_for db c d)"
proof -
  let ?a = "psrc ar" and ?b = "pdst ar"
  obtain db' fx where
    loop: "handle_packets_loop net (replicate n (?a, ?b)) db resolve active interface = (db', fx)"
    by (cases "handle_packets_loop net (replicate n (?a, ?b)) db resolve active interface") auto
  have hp: "handle_packets net (replicate n p) db resolve active interface = Inr (db', fx)"
    using assms(3) by (simp add: handle_packets_def unpack_packets_replicate[OF assms(2)] loop)
  note facts = handle_packets_loop_counts[OF assms(1) loop]
  have ok': "ledger_ok db'" using facts by simp
  have cnt: "pair_count db' ?a ?b = pair_count db ?a ?b + int n"
    using facts[of ?a ?b] by (simp add: count_list_replicate)
  have single: "map count (txs_for db' ?a ?b) = [pair_count db ?a ?b + int n]" if "0 < n"
  proof -
    have "txs_for db' ?a ?b \<noteq> []" using facts[of ?a ?b] that by simp
    with txs_for_at_most_one[OF ok', of ?a ?b] obtain t where t: "txs_for db' ?a ?b = [t]"
      using one_element by blast
    with cnt show ?thesis by (simp add: pair_count_def)
  qed
  have other: "txs_for db' c d = txs_for db c d" if "(c, d) \<noteq> (?a, ?b)" for c d
    using facts[of c d] that by auto
  have zero: "pair_count db ?a ?b = 0" if "txs_for db ?a ?b = []"
    using that by (simp add: pair_count_def)
  show ?thesis
    using hp ok' single other zero by auto
qed

theorem handle_packets_identical_events_witness:
  "ledger_ok empty_ledger \<and>
   arp_layer (who_has ''A'' ''B'') = Some \<lparr>arp_op = 1, psrc = ''A'', pdst = ''B''\<rparr> \<and>
   \<not> (False \<and> \<not> truthy None) \<and>
   (\<exists>db' fx. handle_packets quiet_net (replicate 3 (who_has ''A'' ''B''))
        empty_ledger False False None = Inr (db', fx) \<and>
      map count (txs_for db' ''A'' ''B'') = [3])"
proof -
  have ok: "ledger_ok empty_ledger" by (simp add: ledger_ok_def empty_ledger_def)
  have e: "txs_for empty_ledger ''A'' ''B'' = []" by (simp add: txs_for_def empty_ledger_def)
  have l: "arp_layer (who_has ''A'' ''B'') = Some \<lparr>arp_op = 1, psrc = ''A'', pdst = ''B''\<rparr>"
    by (simp add: who_has_def)
  have c: "\<not> (False \<and> \<not> truthy None)" by simp
  from handle_packets_identical_events[OF ok l c, of quiet_net 3 False] e
  show ?thesis using ok l by auto
qed


section \<open>The registry is idempotent\<close>

lemma find_append_case:
  "find P (xs @ ys) = (case find P xs of None \<Rightarrow> find P ys | Some x \<Rightarrow> Some x)"
  by (induction xs) auto

lemma get_or_create_ip_values:
  assumes "get_or_create_ip net v db resolve ptr_arg interface active = (i, db', fx)"
    and "distinct (map ip_value (ips db))"
  shows "distinct (map ip_value (ips db'))"
  using get_or_create_ip_cases[OF assms(1)] assms(2)
  by (auto simp: created_ip_simps find_None_iff)

lemma get_or_create_ips_values:
  "distinct (map ip_value (ips db)) \<Longrightarrow> distinct (map ip_value (ips (get_or_create_ips net calls db)))"
proof (induction calls arbitrary: db)
  case Nil
  then show ?case by simp
next
  case (Cons c calls)
  obtain v resolve ptr_arg interface active where c: "c = (v, resolve, ptr_arg, interface, active)"
    by (cases c)
  obtain i db1 fx where g: "get_or_create_ip net v db resolve ptr_arg interface active = (i, db1, fx)"
    by (cases "get_or_create_ip net v db resolve ptr_arg interface active") auto
  have "distinct (map ip_value (ips db1))"
    by (rule get_or_create_ip_values[OF g Cons.prems])
  then show ?case using Cons.IH[of db1] by (simp add: c g)
qed

lemma get_or_create_ip_again:
  assumes "get_or_create_ip net v db resolve ptr_arg interface active = (i, db', fx)"
  shows "get_or_create_ip net' v db' resolve' ptr_arg' interface' active' = (i, db', [])"
  using get_or_create_ip_cases[OF assms]
proof
  assume "find (\<lambda>i. ip_value i = v) (ips db) = Some i \<and> db' = db \<and> fx = []"
  then show ?thesis by (simp add: get_or_create_ip_found)
next
  assume new: "find (\<lambda>i. ip_value i = v) (ips db) = None \<and>
          i = created_ip net v db interface active \<and>
          db' = db\<lparr>ips := ips db @ [created_ip net v db interface active],
                   ptrs := ptrs db @ created_ptrs net v db resolve ptr_arg\<rparr> \<and>
          fx = created_fx v resolve ptr_arg interface active"
  then have "find (\<lambda>i. ip_value i = v) (ips db') = Some i"
    by (simp add: find_append_case created_ip_simps)
  then show ?thesis by (rule get_or_create_ip_found)
qed

text \<open>
  Claim C2. A second call of \<^verbatim>\<open>get_or_create_ip\<close> with an equal address, whatever its
  other arguments, returns the very entity the first call returned (same key, same
  row), changes nothing and calls the network for nothing. A call keeps the address
  values of the store distinct, so after any sequence of calls on an empty store no
  two entities have the same value.
\<close>

theorem get_or_create_ip_idempotent:
  assumes "get_or_create_ip net v db resolve ptr_arg interface active = (i, db', fx)"
  shows "get_or_create_ip net' v db' resolve' ptr_arg' interface' active' = (i, db', []) \<and>
         (distinct (map ip_value (ips db)) \<longrightarrow> distinct (map ip_value (ips db'))) \<and>
         distinct (map ip_value (ips (get_or_create_ips net calls empty_ledger)))"
proof (intro conjI impI)
  show "get_or_create_ip net' v db' resolve' ptr_arg' interface' active' = (i, db', [])"
    by (rule get_or_create_ip_again[OF assms])
  show "distinct (map ip_value (ips db'))" if "distinct (map ip_value (ips db))"
    by (rule get_or_create_ip_values[OF assms that])
  show "distinct (map ip_value (ips (get_or_create_ips net calls empty_ledger)))"
    by (rule get_or_create_ips_values) (simp add: empty_ledger_def)
qed

lemma get_or_create_ip_example:
  "get_or_create_ip quiet_net ''A'' empty_ledger False None None False
     = (ip_A, \<lparr>ips = [ip_A], ptrs = [], transactions = []\<rparr>, [])"
  by (simp add: get_or_create_ip_def empty_ledger_def next_id_def truthy_def ip_A_def Let_def)

theorem get_or_create_ip_idempotent_witness:
  "get_or_create_ip quiet_net ''A'' empty_ledger False None None False
     = (ip_A, \<lparr>ips = [ip_A], ptrs = [], transactions = []\<rparr>, []) \<and>
   get_or_create_ip quiet_net ''A'' \<lparr>ips = [ip_A], ptrs = [], transactions = []\<rparr>
       True None (Some ''eth0'') True
     = (ip_A, \<lparr>ips = [ip_A], ptrs = [], transactions = []\<rparr>, []) \<and>
   distinct (map ip_value (ips \<lparr>ips = [ip_A], ptrs = [], transactions = []\<rparr>)) \<and>
   distinct (map ip_value (ips (get_or_create_ips quiet_net
      [(''A'', False, None, None, False), (''A'', True, None, Some ''eth0'', True)] empty_ledger)))"
  using get_or_create_ip_idempotent[OF get_or_create_ip_example,
      where net' = quiet_net and resolve' = True and ptr_arg' = None
        and interface' = "Some ''eth0''" and active' = True
        and calls = "[(''A'', False, None, None, False), (''A'', True, None, Some ''eth0'', True)]"]
    get_or_create_ip_example
  by (simp add: empty_ledger_def)


section \<open>Network calls happen on the creation path only\<close>

lemma probes_append [simp]: "probes (xs @ ys) = probes xs @ probes ys"
  and queries_append [simp]: "queries (xs @ ys) = queries xs @ queries ys"
  and probes_Nil [simp]: "probes [] = []"
  and queries_Nil [simp]: "queries [] = []"
  by (simp_all add: probes_def queries_def)

lemma ingested_refl: "ingested net resolve interface db [] [] db"
  by (simp add: ingested_def)

lemma ingested_trans:
  assumes "ingested net resolve interface db n1 fx1 db1"
    and "ingested net resolve interface db1 n2 fx2 db2"
  shows "ingested net resolve interface db (n1 @ n2) (fx1 @ fx2) db2"
  using assms unfolding ingested_def
  by (auto simp: image_Un)

lemma ingested_upsert:
  "ingested net resolve interface db news fx db' \<Longrightarrow>
   ingested net resolve interface db news fx (upsert_tx db' s t k)"
  by (simp add: ingested_def)

lemma get_or_create_ip_ingested:
  assumes "get_or_create_ip net v db resolve None interface' active' = (i, db', fx)"
    and "active' \<longrightarrow> interface' = interface"
  shows "\<exists>news. ingested net resolve interface db news fx db'"
  using get_or_create_ip_cases[OF assms(1)]
proof
  assume "find (\<lambda>i. ip_value i = v) (ips db) = Some i \<and> db' = db \<and> fx = []"
  then show ?thesis using ingested_refl by blast
next
  let ?c = "created_ip net v db interface' active'"
  assume new: "find (\<lambda>i. ip_value i = v) (ips db) = None \<and>
          i = ?c \<and>
          db' = db\<lparr>ips := ips db @ [?c], ptrs := ptrs db @ created_ptrs net v db resolve None\<rparr> \<and>
          fx = created_fx v resolve None interface' active'"
  then have fresh: "v \<notin> ip_value ` set (ips db)"
    by (auto simp: find_None_iff)
  have ptrs: "created_ptrs net v db resolve None = ptr_rows net resolve ?c"
    by (auto simp: created_ptrs_def ptr_rows_def created_ip_simps truthy_def split: option.splits)
  have mac: "mac_address ?c = probed_mac net interface ?c"
    using assms(2) by (auto simp: probed_mac_def created_ip_def)
  have fx: "probes fx = map ip_value (filter arp_resolve_attempted [?c])"
    "queries fx = (if resolve then map ip_value [?c] else [])"
    using new by (auto simp: created_fx_def probes_def queries_def created_ip_def truthy_def)
  have "ingested net resolve interface db [?c] fx db'"
    unfolding ingested_def using new fresh ptrs mac fx next_id_notin[of "ips db"]
    by (simp add: created_ip_simps)
  then show ?thesis by blast
qed

lemma handle_packet_ingested:
  assumes "handle_packet net pkt db resolve active interface = (db', fx)"
  shows "\<exists>news. ingested net resolve interface db news fx db'"
proof -
  obtain s db1 fx1 where g1: "get_or_create_ip net (fst pkt) db resolve None None False = (s, db1, fx1)"
    by (cases "get_or_create_ip net (fst pkt) db resolve None None False") auto
  obtain g db2 fx2 where g2: "get_or_create_ip net (snd pkt) db1 resolve None interface active = (g, db2, fx2)"
    by (cases "get_or_create_ip net (snd pkt) db1 resolve None interface active") auto
  have db': "db' = upsert_tx db2 (ip_id s) (ip_id g) 1" and fx: "fx = fx1 @ fx2"
    using assms by (simp_all add: handle_packet_upsert g1 g2)
  from get_or_create_ip_ingested[OF g1, of interface]
  obtain n1 where n1: "ingested net resolve interface db n1 fx1 db1" by auto
  from get_or_create_ip_ingested[OF g2, of interface]
  obtain n2 where n2: "ingested net resolve interface db1 n2 fx2 db2" by auto
  have "ingested net resolve interface db (n1 @ n2) fx db'"
    unfolding db' fx by (rule ingested_upsert[OF ingested_trans[OF n1 n2]])
  then show ?thesis by blast
qed

lemma handle_packets_loop_ingested:
  assumes "handle_packets_loop net pairs db resolve active interface = (db', fx)"
  shows "\<exists>news. ingested net resolve interface db news fx db'"
  using assms
proof (induction pairs arbitrary: db db' fx)
  case Nil
  then have "db' = db" "fx = []" by simp_all
  then show ?case using ingested_refl by blast
next
  case (Cons pkt pairs)
  obtain db1 fx1 where h1: "handle_packet net pkt db resolve active interface = (db1, fx1)"
    by (cases "handle_packet net pkt db resolve active interface") auto
  obtain db2 fx2 where h2: "handle_packets_loop net pairs db1 resolve active interface = (db2, fx2)"
    by (cases "handle_packets_loop net pairs db1 resolve active interface") auto
  from Cons.prems have eq: "db' = db2" "fx = fx1 @ fx2" by (simp_all add: h1 h2)
  from handle_packet_ingested[OF h1] obtain n1 where n1: "ingested net resolve interface db n1 fx1 db1"
    by auto
  from Cons.IH[OF h2] obtain n2 where n2: "ingested net resolve interface db1 n2 fx2 db2"
    by auto
  have "ingested net resolve interface db (n1 @ n2) fx db'"
    unfolding eq by (rule ingested_trans[OF n1 n2])
  then show ?case by blast
qed

lemma handle_packets_ingested:
  assumes "handle_packets net packets db resolve active interface = Inr (db', fx)"
  shows "\<exists>news. ingested net resolve interface db news fx db'"
proof -
  from assms obtain pairs where "handle_packets_loop net pairs db resolve active interface = (db', fx)"
    by (auto simp: handle_packets_def split: sum.splits if_splits)
  then show ?thesis by (rule handle_packets_loop_ingested)
qed

lemma demo_batch:
  "handle_packets demo_net [who_has ''A'' ''B'', who_has ''A'' ''B'', who_has ''A'' ''C'']
     empty_ledger True True (Some ''eth0'') = Inr (demo_ledger, demo_fx)"
  by (simp add: handle_packets_def handle_packet_def get_or_create_ip_def who_has_def
      unpack_packet_def unpack_arp_def truthy_def empty_ledger_def next_id_def Let_def
      reverse_resolve_def arp_request_def demo_net_def add_ptr_def find_transaction_def
      demo_ledger_def demo_fx_def)

text \<open>
  Claim C5. In a batch handled by \<^verbatim>\<open>handle_packets\<close>, the rows of the entities that
  existed before are left as they were (so \<^verbatim>\<open>arp_resolve_attempted\<close> never goes back to
  false and a recorded hardware address stays), no address is probed twice, no
  address that already had an entity is probed (the probe is on the creation path
  only), the probed addresses are exactly the new entities whose
  \<^verbatim>\<open>arp_resolve_attempted\<close> is true, whether the probe answered or not, and a new entity
  has a hardware address only when it was probed and the probe answered.
\<close>

theorem arp_probe_at_most_once:
  assumes "handle_packets net packets db resolve active interface = Inr (db', fx)"
  shows "\<exists>news. ips db' = ips db @ news \<and>
           distinct (probes fx) \<and>
           set (probes fx) \<inter> ip_value ` set (ips db) = {} \<and>
           probes fx = map ip_value (filter arp_resolve_attempted news) \<and>
           (\<forall>i\<in>set news. mac_address i = probed_mac net interface i)"
proof -
  from handle_packets_ingested[OF assms]
  obtain news where n: "ingested net resolve interface db news fx db'" by blast
  then have "distinct (map ip_value (filter arp_resolve_attempted news))"
    by (simp add: ingested_def distinct_map_filter)
  moreover have "set (map ip_value (filter arp_resolve_attempted news)) \<inter> ip_value ` set (ips db) = {}"
    using n by (auto simp: ingested_def)
  ultimately show ?thesis
    using n by (intro exI[of _ news]) (simp add: ingested_def)
qed

theorem arp_probe_at_most_once_witness:
  "handle_packets demo_net [who_has ''A'' ''B'', who_has ''A'' ''B'', who_has ''A'' ''C'']
     empty_ledger True True (Some ''eth0'') = Inr (demo_ledger, demo_fx) \<and>
   probes demo_fx = [''B'', ''C''] \<and>
   (\<exists>news. ips demo_ledger = ips empty_ledger @ news \<and>
           distinct (probes demo_fx) \<and>
           set (probes demo_fx) \<inter> ip_value ` set (ips empty_ledger) = {} \<and>
           probes demo_fx = map ip_value (filter arp_resolve_attempted news) \<and>
           (\<forall>i\<in>set news. mac_address i = probed_mac demo_net (Some ''eth0'') i))"
proof -
  have p: "probes demo_fx = [''B'', ''C'']" by (simp add: probes_def demo_fx_def)
  show ?thesis
    by (rule conjI[OF demo_batch conjI[OF p arp_probe_at_most_once[OF demo_batch]]])
qed

lemma ptr_rows_ref: "p \<in> set (ptr_rows net resolve j) \<Longrightarrow> ptr_ip_id p = ip_id j"
  unfolding ptr_rows_def by (cases resolve; cases "reverse_resolve net (ip_value j)") (auto split: if_split_asm)

lemma filter_rows_new:
  "distinct (map ip_id news) \<Longrightarrow> i \<in> set news \<Longrightarrow>
   filter (\<lambda>p. ptr_ip_id p = ip_id i) (concat (map (ptr_rows net resolve) news)) = ptr_rows net resolve i"
proof (induction news)
  case Nil
  then show ?case by simp
next
  case (Cons j news)
  have own: "filter (\<lambda>p. ptr_ip_id p = ip_id j) (ptr_rows net resolve j) = ptr_rows net resolve j"
    by (simp add: filter_id_conv ptr_rows_ref)
  have none: "filter (\<lambda>p. ptr_ip_id p = k) (concat (map (ptr_rows net resolve) xs)) = []"
    if "k \<notin> ip_id ` set xs" for k xs
    using that by (auto simp: filter_empty_conv dest: ptr_rows_ref)
  have other: "filter (\<lambda>p. ptr_ip_id p = k) (ptr_rows net resolve j) = []" if "k \<noteq> ip_id j" for k
    using that by (auto simp: filter_empty_conv dest: ptr_rows_ref)
  show ?case
  proof (cases "i = j")
    case True
    with Cons.prems(1) have "ip_id j \<notin> ip_id ` set news" by simp
    with True own none show ?thesis by simp
  next
    case False
    with Cons.prems have mem: "i \<in> set news" by simp
    from Cons.prems(1) have "ip_id j \<notin> ip_id ` set news" by simp
    with mem have "ip_id i \<noteq> ip_id j" by (metis imageI)
    with Cons mem other show ?thesis by simp
  qed
qed

lemma filter_rows_old:
  "k \<notin> ip_id ` set news \<Longrightarrow>
   filter (\<lambda>p. ptr_ip_id p = k) (concat (map (ptr_rows net resolve) news)) = []"
  by (auto simp: filter_empty_conv dest: ptr_rows_ref)

text \<open>
  Claim C6. In a batch handled by \<^verbatim>\<open>handle_packets\<close> on a well-formed ledger, no
  address is looked up twice and no address that already had an entity is looked up:
  the lookups are those of the entities the batch creates, one each when resolution
  is enabled. A new entity has exactly one reverse-name row when its lookup answered
  a name and none when it failed; the reverse-name rows of the entities that existed
  before are unchanged.
\<close>

theorem reverse_resolve_at_most_once:
  assumes "ledger_ok db"
    and "handle_packets net packets db resolve active interface = Inr (db', fx)"
  shows "\<exists>news. ips db' = ips db @ news \<and>
           distinct (queries fx) \<and>
           set (queries fx) \<inter> ip_value ` set (ips db) = {} \<and>
           queries fx = (if resolve then map ip_value news else []) \<and>
           (\<forall>i\<in>set news. ptr_of db' i = ptr_rows net resolve i) \<and>
           (\<forall>i\<in>set (ips db). ptr_of db' i = ptr_of db i)"
proof -
  from handle_packets_ingested[OF assms(2)]
  obtain news where n: "ingested net resolve interface db news fx db'" by blast
  have ptrs: "ptrs db' = ptrs db @ concat (map (ptr_rows net resolve) news)"
    and dist: "distinct (map ip_id news)"
    and disj: "ip_id ` set news \<inter> ip_id ` set (ips db) = {}"
    using n by (simp_all add: ingested_def)
  have refs: "\<forall>p\<in>set (ptrs db). ptr_ip_id p \<in> ip_id ` set (ips db)"
    using assms(1) by (simp add: ledger_ok_def)
  have new: "ptr_of db' i = ptr_rows net resolve i" if "i \<in> set news" for i
  proof -
    have "ip_id i \<notin> ip_id ` set (ips db)" using disj that by auto
    with refs have "\<forall>p\<in>set (ptrs db). ptr_ip_id p \<noteq> ip_id i"
      by metis
    then have "filter (\<lambda>p. ptr_ip_id p = ip_id i) (ptrs db) = []"
      by (simp add: filter_empty_conv)
    then show ?thesis
      by (simp add: ptr_of_def ptrs filter_rows_new[OF dist that])
  qed
  have old: "ptr_of db' i = ptr_of db i" if "i \<in> set (ips db)" for i
  proof -
    have "ip_id i \<notin> ip_id ` set news" using disj that by auto
    then show ?thesis by (simp add: ptr_of_def ptrs filter_rows_old)
  qed
  have q: "distinct (queries fx)" "set (queries fx) \<inter> ip_value ` set (ips db) = {}"
    using n by (auto simp: ingested_def)
  show ?thesis
    using n new old q by (intro exI[of _ news]) (simp add: ingested_def)
qed

theorem reverse_resolve_at_most_once_witness:
  "ledger_ok empty_ledger \<and>
   handle_packets demo_net [who_has ''A'' ''B'', who_has ''A'' ''B'', who_has ''A'' ''C'']
     empty_ledger True True (Some ''eth0'') = Inr (demo_ledger, demo_fx) \<and>
   queries demo_fx = [''A'', ''B'', ''C''] \<and>
   ptrs demo_ledger = [\<lparr>ptr_ip_id = 1, ptr_value = ''a.lan''\<rparr>] \<and>
   (\<exists>news. ips demo_ledger = ips empty_ledger @ news \<and>
           distinct (queries demo_fx) \<and>
           set (queries demo_fx) \<inter> ip_value ` set (ips empty_ledger) = {} \<and>
           queries demo_fx = (if True then map ip_value news else []) \<and>
           (\<forall>i\<in>set news. ptr_of demo_ledger i = ptr_rows demo_net True i) \<and>
           (\<forall>i\<in>set (ips empty_ledger). ptr_of demo_ledger i = ptr_of empty_ledger i))"
proof -
  have ok: "ledger_ok empty_ledger" by (simp add: ledger_ok_def empty_ledger_def)
  have q: "queries demo_fx = [''A'', ''B'', ''C'']" by (simp add: queries_def demo_fx_def)
  have p: "ptrs demo_ledger = [\<lparr>ptr_ip_id = 1, ptr_value = ''a.lan''\<rparr>]"
    by (simp add: demo_ledger_def)
  have "(if True then map ip_value news else []) = map ip_value news" for news :: "ip list"
    by simp
  with reverse_resolve_at_most_once[OF ok demo_batch] demo_batch ok q p
  show ?thesis by simp
qed


section \<open>Merging a ledger snapshot\<close>

lemma merge_transaction_upsert:
  "merge_transaction net src t out =
     (case ip_by_id src (sender_ip_id t) of
        None \<Rightarrow> Inl AttributeError
      | Some ts \<Rightarrow>
          (case ip_by_id src (target_ip_id t) of
             None \<Rightarrow> Inl AttributeError
           | Some tt \<Rightarrow>
               (case get_or_create_ip net (ip_value ts) out False
                       (case ptr_of src ts of [] \<Rightarrow> None | p # _ \<Rightarrow> Some (ptr_value p)) None False of
                  (s, out1, fx1) \<Rightarrow>
                    (case get_or_create_ip net (ip_value tt) out1 False
                            (case ptr_of src tt of [] \<Rightarrow> None | p # _ \<Rightarrow> Some (ptr_value p)) None False of
                       (g, out2, fx2) \<Rightarrow> Inr (upsert_tx out2 (ip_id s) (ip_id g) (count t))))))"
  unfolding merge_transaction_def upsert_tx_def Let_def
  by (simp split: prod.split option.split)

lemma merge_transaction_step:
  assumes ok: "ledger_ok out"
    and s: "ip_by_id src (sender_ip_id t) = Some ts"
    and g: "ip_by_id src (target_ip_id t) = Some tt"
  shows "\<exists>out'. merge_transaction net src t out = Inr out' \<and> ledger_ok out' \<and>
           (\<forall>c d. pair_count out' c d =
              pair_count out c d + (if (c, d) = (ip_value ts, ip_value tt) then count t else 0)) \<and>
           txs_for out' (ip_value ts) (ip_value tt) \<noteq> [] \<and>
           (\<forall>c d. (c, d) \<noteq> (ip_value ts, ip_value tt) \<longrightarrow> txs_for out' c d = txs_for out c d)"
proof -
  let ?sptr = "case ptr_of src ts of [] \<Rightarrow> None | p # _ \<Rightarrow> Some (ptr_value p)"
  let ?tptr = "case ptr_of src tt of [] \<Rightarrow> None | p # _ \<Rightarrow> Some (ptr_value p)"
  obtain a out1 fx1 where g1: "get_or_create_ip net (ip_value ts) out False ?sptr None False = (a, out1, fx1)"
    by (cases "get_or_create_ip net (ip_value ts) out False ?sptr None False") auto
  obtain b out2 fx2 where g2: "get_or_create_ip net (ip_value tt) out1 False ?tptr None False = (b, out2, fx2)"
    by (cases "get_or_create_ip net (ip_value tt) out1 False ?tptr None False") auto
  have m: "merge_transaction net src t out = Inr (upsert_tx out2 (ip_id a) (ip_id b) (count t))"
    by (simp add: merge_transaction_upsert s g g1 g2)
  note st = lookup_pair_upsert[OF ok g1 g2, where k = "count t"]
  show ?thesis
    unfolding m using st by auto
qed

lemma ip_by_id_present:
  "k \<in> ip_id ` set (ips db) \<Longrightarrow> \<exists>i. ip_by_id db k = Some i"
  by (cases "ip_by_id db k") (auto simp: ip_by_id_def find_None_iff)

lemma merge_ledger_counts:
  assumes "ledger_ok out"
    and "\<forall>t\<in>set ts. sender_ip_id t \<in> ip_id ` set (ips src) \<and> target_ip_id t \<in> ip_id ` set (ips src)"
  shows "\<exists>out'. merge_ledger net src ts out = (out', None) \<and> ledger_ok out' \<and>
           (\<forall>c d. pair_count out' c d =
              pair_count out c d
              + sum_list (map count (filter (\<lambda>t. tx_pair src t = (Some c, Some d)) ts))) \<and>
           (\<forall>c d. filter (\<lambda>t. tx_pair src t = (Some c, Some d)) ts \<noteq> [] \<longrightarrow> txs_for out' c d \<noteq> []) \<and>
           (\<forall>c d. filter (\<lambda>t. tx_pair src t = (Some c, Some d)) ts = [] \<longrightarrow> txs_for out' c d = txs_for out c d)"
  using assms
proof (induction ts arbitrary: out)
  case Nil
  then show ?case by simp
next
  case (Cons t ts)
  from Cons.prems(2) ip_by_id_present[of "sender_ip_id t" src] ip_by_id_present[of "target_ip_id t" src]
  obtain s g where s: "ip_by_id src (sender_ip_id t) = Some s" and g: "ip_by_id src (target_ip_id t) = Some g"
    by auto
  from merge_transaction_step[OF Cons.prems(1) s g, of net]
  obtain out1 where m: "merge_transaction net src t out = Inr out1" and ok1: "ledger_ok out1"
    and c1: "\<And>c d. pair_count out1 c d =
              pair_count out c d + (if (c, d) = (ip_value s, ip_value g) then count t else 0)"
    and p1: "txs_for out1 (ip_value s) (ip_value g) \<noteq> []"
    and o1: "\<And>c d. (c, d) \<noteq> (ip_value s, ip_value g) \<Longrightarrow> txs_for out1 c d = txs_for out c d"
    by blast
  from Cons.prems(2) have refs: "\<forall>t\<in>set ts. sender_ip_id t \<in> ip_id ` set (ips src) \<and> target_ip_id t \<in> ip_id ` set (ips src)"
    by simp
  from Cons.IH[OF ok1 refs]
  obtain out' where l: "merge_ledger net src ts out1 = (out', None)" and ok': "ledger_ok out'"
    and c': "\<And>c d. pair_count out' c d = pair_count out1 c d
              + sum_list (map count (filter (\<lambda>t. tx_pair src t = (Some c, Some d)) ts))"
    and p': "\<And>c d. filter (\<lambda>t. tx_pair src t = (Some c, Some d)) ts \<noteq> [] \<Longrightarrow> txs_for out' c d \<noteq> []"
    and o': "\<And>c d. filter (\<lambda>t. tx_pair src t = (Some c, Some d)) ts = [] \<Longrightarrow> txs_for out' c d = txs_for out1 c d"
    by blast
  have pair: "tx_pair src t = (Some (ip_value s), Some (ip_value g))"
    by (simp add: tx_pair_def s g)
  have "merge_ledger net src (t # ts) out = (out', None)" by (simp add: m l)
  moreover have "pair_count out' c d = pair_count out c d
       + sum_list (map count (filter (\<lambda>t. tx_pair src t = (Some c, Some d)) (t # ts)))" for c d
    using c'[of c d] c1[of c d] pair by auto
  moreover have "txs_for out' c d \<noteq> []"
    if "filter (\<lambda>t. tx_pair src t = (Some c, Some d)) (t # ts) \<noteq> []" for c d
  proof (cases "filter (\<lambda>t. tx_pair src t = (Some c, Some d)) ts = []")
    case True
    with that pair have "(c, d) = (ip_value s, ip_value g)" by (auto split: if_splits)
    with o'[OF True] p1 show ?thesis by simp
  next
    case False
    then show ?thesis by (rule p')
  qed
  moreover have "txs_for out' c d = txs_for out c d"
    if "filter (\<lambda>t. tx_pair src t = (Some c, Some d)) (t # ts) = []" for c d
  proof -
    from that pair have ne: "(c, d) \<noteq> (ip_value s, ip_value g)" and e: "filter (\<lambda>t. tx_pair src t = (Some c, Some d)) ts = []"
      by (auto split: if_splits)
    show ?thesis using o'[OF e] o1[OF ne] by simp
  qed
  ultimately show ?case using ok' by blast
qed

lemma ledger_ab_ok: "ledger_ok (ledger_ab n)"
  by (simp add: ledger_ok_def ledger_ab_def tx_key_def)

lemma merge_ledger_ab:
  "merge_ledger net (ledger_ab m) (transactions (ledger_ab m)) (ledger_ab n) = (ledger_ab (n + m), None)"
  by (simp add: ledger_ab_def merge_transaction_def ip_by_id_def ptr_of_def get_or_create_ip_def
      find_transaction_def)

lemma txs_for_ledger_ab: "map count (txs_for (ledger_ab n) ''A'' ''B'') = [n]"
  by (simp add: txs_for_def ledger_ab_def tx_pair_def ip_by_id_def)

text \<open>
  Claim C3, as stated, fails: merging the source \<open>{(A, B): 2}\<close> into a destination
  holding \<open>{(A, B): 3}\<close> gives 5, and merging the same source a second time gives 7,
  not 8. The last line is the same import through \<^verbatim>\<open>analyze\<close>.
\<close>

theorem merge_twice_counterexample:
  "merge_ledger quiet_net (ledger_ab 2) (transactions (ledger_ab 2)) (ledger_ab 3)
     = (ledger_ab 5, None) \<and>
   merge_ledger quiet_net (ledger_ab 2) (transactions (ledger_ab 2)) (ledger_ab 5)
     = (ledger_ab 7, None) \<and>
   map count (txs_for (ledger_ab 7) ''A'' ''B'') = [7] \<and>
   map count (txs_for (ledger_ab 7) ''A'' ''B'') \<noteq> [8] \<and>
   fst (analyze cwd_only quiet_net (\<lambda>t s. t) snapshot_files ''out.db'' None None []
          [''d3.db'', ''s2.db'', ''s2.db''] None False) ''out.db''
     = Some (SqliteFile (ledger_ab 7))"
proof -
  have a: "merge_ledger quiet_net (ledger_ab 2) (transactions (ledger_ab 2)) (ledger_ab 3)
     = (ledger_ab 5, None)"
    using merge_ledger_ab[of quiet_net 2 3] by simp
  have b: "merge_ledger quiet_net (ledger_ab 2) (transactions (ledger_ab 2)) (ledger_ab 5)
     = (ledger_ab 7, None)"
    using merge_ledger_ab[of quiet_net 2 5] by simp
  have first: "merge_ledger quiet_net (ledger_ab 3) (transactions (ledger_ab 3)) empty_ledger
     = (ledger_ab 3, None)"
    by (simp add: ledger_ab_def empty_ledger_def merge_transaction_def ip_by_id_def ptr_of_def
        get_or_create_ip_def find_transaction_def next_id_def truthy_def Let_def)
  have c: "fst (analyze cwd_only quiet_net (\<lambda>t s. t) snapshot_files ''out.db'' None None []
          [''d3.db'', ''s2.db'', ''s2.db''] None False) ''out.db''
     = Some (SqliteFile (ledger_ab 7))"
    by (simp add: analyze_def create_db_def cwd_only_def snapshot_files_def read_db_def first a b
        split: prod.splits sum.splits)
  show ?thesis using a b c txs_for_ledger_ab[of 7] by simp
qed

lemma refs_of_ok:
  "ledger_ok db \<Longrightarrow>
   \<forall>t\<in>set (transactions db). sender_ip_id t \<in> ip_id ` set (ips db) \<and> target_ip_id t \<in> ip_id ` set (ips db)"
  by (simp add: ledger_ok_def)

text \<open>
  Claim C3, amended. Merging a well-formed source into a well-formed destination
  adds, for every ordered pair of address values, the count of the source transaction
  to the count of the destination transaction, which is created with the source count
  when the destination has none; pairs the source does not have are left as they
  were. Merging the same source a second time adds the source counts once more: the
  merge is not idempotent, and \<open>{(A, B): 2}\<close> merged twice into \<open>{(A, B): 3}\<close> gives 7.
\<close>

theorem merge_ledger_adds_counts:
  assumes "ledger_ok src" and "ledger_ok out"
  shows "\<exists>out1 out2.
           merge_ledger net src (transactions src) out = (out1, None) \<and>
           merge_ledger net src (transactions src) out1 = (out2, None) \<and>
           ledger_ok out1 \<and>
           (\<forall>c d. pair_count out1 c d = pair_count out c d + pair_count src c d) \<and>
           (\<forall>c d. txs_for src c d \<noteq> [] \<longrightarrow>
                    map count (txs_for out1 c d) = [pair_count out c d + pair_count src c d]) \<and>
           (\<forall>c d. txs_for src c d = [] \<longrightarrow> txs_for out1 c d = txs_for out c d) \<and>
           (\<forall>c d. pair_count out2 c d = pair_count out c d + 2 * pair_count src c d)"
proof -
  note refs = refs_of_ok[OF assms(1)]
  from merge_ledger_counts[OF assms(2) refs, of net]
  obtain out1 where m1: "merge_ledger net src (transactions src) out = (out1, None)"
    and ok1: "ledger_ok out1"
    and c1: "\<And>c d. pair_count out1 c d = pair_count out c d + pair_count src c d"
    and p1: "\<And>c d. txs_for src c d \<noteq> [] \<Longrightarrow> txs_for out1 c d \<noteq> []"
    and o1: "\<And>c d. txs_for src c d = [] \<Longrightarrow> txs_for out1 c d = txs_for out c d"
    unfolding pair_count_def[of src] txs_for_def[of src] by blast
  from merge_ledger_counts[OF ok1 refs, of net]
  obtain out2 where m2: "merge_ledger net src (transactions src) out1 = (out2, None)"
    and c2: "\<And>c d. pair_count out2 c d = pair_count out1 c d + pair_count src c d"
    unfolding pair_count_def[of src] txs_for_def[of src] by blast
  have single: "map count (txs_for out1 c d) = [pair_count out c d + pair_count src c d]"
    if "txs_for src c d \<noteq> []" for c d
  proof -
    from txs_for_at_most_one[OF ok1, of c d] p1[OF that]
    obtain t where "txs_for out1 c d = [t]" using one_element by blast
    with c1[of c d] show ?thesis by (simp add: pair_count_def)
  qed
  have twice: "pair_count out2 c d = pair_count out c d + 2 * pair_count src c d" for c d
    using c2[of c d] c1[of c d] by simp
  show ?thesis
    using m1 m2 ok1 c1 single o1 twice by blast
qed

theorem merge_ledger_adds_counts_witness:
  "ledger_ok (ledger_ab 2) \<and> ledger_ok (ledger_ab 3) \<and>
   merge_ledger quiet_net (ledger_ab 2) (transactions (ledger_ab 2)) (ledger_ab 3)
     = (ledger_ab 5, None) \<and>
   merge_ledger quiet_net (ledger_ab 2) (transactions (ledger_ab 2)) (ledger_ab 5)
     = (ledger_ab 7, None) \<and>
   pair_count (ledger_ab 5) ''A'' ''B'' = pair_count (ledger_ab 3) ''A'' ''B'' + pair_count (ledger_ab 2) ''A'' ''B'' \<and>
   pair_count (ledger_ab 7) ''A'' ''B'' = pair_count (ledger_ab 3) ''A'' ''B'' + 2 * pair_count (ledger_ab 2) ''A'' ''B'' \<and>
   pair_count (ledger_ab 7) ''A'' ''B'' = 7"
proof -
  have a: "merge_ledger quiet_net (ledger_ab 2) (transactions (ledger_ab 2)) (ledger_ab 3)
     = (ledger_ab 5, None)"
    using merge_ledger_ab[of quiet_net 2 3] by simp
  have b: "merge_ledger quiet_net (ledger_ab 2) (transactions (ledger_ab 2)) (ledger_ab 5)
     = (ledger_ab 7, None)"
    using merge_ledger_ab[of quiet_net 2 5] by simp
  have n: "pair_count (ledger_ab 7) ''A'' ''B'' = 7"
    using txs_for_ledger_ab[of 7] by (simp add: pair_count_def)
  from merge_ledger_adds_counts[OF ledger_ab_ok[of 2] ledger_ab_ok[of 3], of quiet_net]
  show ?thesis
    using a b n ledger_ab_ok by auto
qed


section \<open>The report is the grouping of the accepted transactions\<close>

lemma organize_fold:
  assumes "\<forall>t\<in>set ts. sender_ip_id t \<in> ip_id ` set (ips db) \<and> target_ip_id t \<in> ip_id ` set (ips db)"
  shows "organize db sls tls cp resolve active ts rd
         = Inr (fold_entries (entries db sls tls cp resolve active ts) rd)"
  using assms
proof (induction ts arbitrary: rd)
  case Nil
  then show ?case by (simp add: entries_def map_filter_simps)
next
  case (Cons t ts)
  from Cons.prems ip_by_id_present[of "sender_ip_id t" db] ip_by_id_present[of "target_ip_id t" db]
  obtain s g where s: "ip_by_id db (sender_ip_id t) = Some s" and g: "ip_by_id db (target_ip_id t) = Some g"
    by auto
  from Cons.prems have refs: "\<forall>t\<in>set ts. sender_ip_id t \<in> ip_id ` set (ips db) \<and> target_ip_id t \<in> ip_id ` set (ips db)"
    by simp
  note ih = Cons.IH[OF refs]
  have row: "make_row db cp resolve active (map_of rd (ip_value s) = None) t s g
     = (if map_of rd (ip_value s) = None then make_row db cp resolve active True t s g
        else make_row db cp resolve active False t s g)"
    by (cases "map_of rd (ip_value s)") simp_all
  show ?case
    using ih by (simp add: s g entries_def map_filter_simps entry_of_def row)
qed

lemma rowdict_append_new:
  "k \<notin> fst ` set rd \<Longrightarrow> rowdict_append k r rd = rd @ [(k, [r])]"
  by (induction rd) auto

lemma rowdict_append_old:
  "k \<in> fst ` set rd \<Longrightarrow> distinct (map fst rd) \<Longrightarrow>
   rowdict_append k r rd = map (\<lambda>(k', rows). (k', if k' = k then rows @ [r] else rows)) rd"
proof (induction rd)
  case Nil
  then show ?case by simp
next
  case (Cons p rd)
  obtain k' rows where p: "p = (k', rows)" by (cases p)
  show ?case
  proof (cases "k' = k")
    case True
    with Cons.prems(2) p have "k \<notin> fst ` set rd" by auto
    then have "map (\<lambda>(k', rows). (k', if k' = k then rows @ [r] else rows)) rd = rd"
      by (induction rd) auto
    with True p show ?thesis by simp
  next
    case False
    with Cons p show ?thesis by auto
  qed
qed

lemma map_rows_keys:
  "map fst (map (\<lambda>(k, rows). (k, f k rows)) rd) = map fst rd"
  by (induction rd) auto

lemma map_rows_append:
  "map (\<lambda>(k', rows). (k', rows @ g k'))
     (map (\<lambda>(k', rows). (k', if k' = k then rows @ [r] else rows)) rd)
   = map (\<lambda>(k', rows). (k', rows @ (if k' = k then r # g k' else g k'))) rd"
  by (induction rd) auto

lemma map_rows_cong:
  "(\<And>k. k \<in> fst ` set rd \<Longrightarrow> f k = g k) \<Longrightarrow>
   map (\<lambda>(k, rows). (k, rows @ f k)) rd = map (\<lambda>(k, rows). (k, rows @ g k)) rd"
  by (induction rd) auto

lemma fold_entries_grouped:
  "distinct (map fst rd) \<Longrightarrow>
   fold_entries es rd =
     map (\<lambda>(k, rows). (k, rows @ map (\<lambda>e. snd (snd e)) (filter (\<lambda>e. fst e = k) es))) rd
     @ grouped (filter (\<lambda>e. fst e \<notin> fst ` set rd) es)"
proof (induction es arbitrary: rd)
  case Nil
  then show ?case by simp
next
  case (Cons e es)
  obtain k r1 r0 where e: "e = (k, r1, r0)" by (cases e)
  let ?g = "\<lambda>k es. map (\<lambda>e. snd (snd e)) (filter (\<lambda>e :: entry. fst e = k) es)"
  show ?case
  proof (cases "k \<in> fst ` set rd")
    case True
    then have none: "map_of rd k \<noteq> None" by (simp add: map_of_eq_None_iff)
    define rd1 where "rd1 = map (\<lambda>(k', rows). (k', if k' = k then rows @ [r0] else rows)) rd"
    have app: "rowdict_append k r0 rd = rd1"
      unfolding rd1_def by (rule rowdict_append_old[OF True Cons.prems])
    have keys: "map fst rd1 = map fst rd"
      unfolding rd1_def by (rule map_rows_keys)
    have d1: "distinct (map fst rd1)" using Cons.prems by (simp only: keys)
    have s1: "fst ` set rd1 = fst ` set rd"
      using arg_cong[OF keys, of set] by (simp only: list.set_map)
    have step: "fold_entries (e # es) rd = fold_entries es rd1"
      using none by (cases "map_of rd k") (simp_all add: e app)
    have ih: "fold_entries es rd1 = map (\<lambda>(k, rows). (k, rows @ ?g k es)) rd1
         @ grouped (filter (\<lambda>e. fst e \<notin> fst ` set rd) es)"
      using Cons.IH[OF d1] by (simp only: s1)
    have left: "map (\<lambda>(k, rows). (k, rows @ ?g k es)) rd1
        = map (\<lambda>(k, rows). (k, rows @ ?g k (e # es))) rd"
      unfolding rd1_def map_rows_append
      by (rule map_rows_cong) (simp add: e)
    have right: "filter (\<lambda>e. fst e \<notin> fst ` set rd) (e # es) = filter (\<lambda>e. fst e \<notin> fst ` set rd) es"
      using True by (simp add: e)
    show ?thesis
      by (simp only: step ih left right)
  next
    case False
    then have none: "map_of rd k = None" by (simp add: map_of_eq_None_iff)
    define rd1 where "rd1 = rd @ [(k, [r1])]"
    have app: "rowdict_append k r1 rd = rd1"
      unfolding rd1_def by (rule rowdict_append_new[OF False])
    have d1: "distinct (map fst rd1)" using Cons.prems False by (auto simp: rd1_def)
    have s1: "fst ` set rd1 = insert k (fst ` set rd)" by (auto simp: rd1_def)
    have f1: "filter (\<lambda>e. fst e \<notin> fst ` set rd1) es
        = filter (\<lambda>e. fst e \<noteq> k) (filter (\<lambda>e. fst e \<notin> fst ` set rd) es)"
      unfolding s1 by (auto intro: filter_cong)
    have f2: "filter (\<lambda>e. fst e = k) (filter (\<lambda>e. fst e \<notin> fst ` set rd) es) = filter (\<lambda>e. fst e = k) es"
      using False by (auto intro: filter_cong)
    have step: "fold_entries (e # es) rd = fold_entries es rd1"
      using none by (simp add: e app)
    have ih: "fold_entries es rd1 = map (\<lambda>(k, rows). (k, rows @ ?g k es)) rd1
         @ grouped (filter (\<lambda>e. fst e \<noteq> k) (filter (\<lambda>e. fst e \<notin> fst ` set rd) es))"
      using Cons.IH[OF d1] by (simp only: f1)
    have left: "map (\<lambda>(k, rows). (k, rows @ ?g k es)) rd1
        = map (\<lambda>(k, rows). (k, rows @ ?g k (e # es))) rd @ [(k, r1 # ?g k es)]"
    proof -
      have "map (\<lambda>(k, rows). (k, rows @ ?g k es)) rd = map (\<lambda>(k, rows). (k, rows @ ?g k (e # es))) rd"
        using False by (intro map_rows_cong) (auto simp: e)
      then show ?thesis by (simp add: rd1_def)
    qed
    have right: "grouped (filter (\<lambda>e. fst e \<notin> fst ` set rd) (e # es))
        = (k, r1 # ?g k es) # grouped (filter (\<lambda>e. fst e \<noteq> k) (filter (\<lambda>e. fst e \<notin> fst ` set rd) es))"
    proof -
      have "filter (\<lambda>e. fst e \<notin> fst ` set rd) (e # es)
          = (k, r1, r0) # filter (\<lambda>e. fst e \<notin> fst ` set rd) es"
        using False by (simp add: e)
      then show ?thesis by (simp only: grouped.simps(2) f2)
    qed
    show ?thesis
      by (simp only: step ih left right append_assoc append_Cons append_Nil)
  qed
qed

lemma fold_entries_empty: "fold_entries es [] = grouped es"
  using fold_entries_grouped[of "[]" es] by simp

lemma restructure_plain: "restructure stylize None rd counter = concat (map snd rd)"
  by (induction rd arbitrary: counter) auto

lemma query_transactions_desc_set [simp]:
  "set (query_transactions_desc db) = set (transactions db)"
  by (simp add: query_transactions_desc_def)

lemma query_transactions_desc_empty [simp]:
  "query_transactions_desc db = [] \<longleftrightarrow> transactions db = []"
  using length_sort[of "\<lambda>t. - count t" "transactions db"]
  by (simp add: query_transactions_desc_def del: length_sort) (metis length_0_conv)

lemma query_transactions_desc_sorted:
  "sorted_wrt (\<lambda>x y. count y \<le> count x) (query_transactions_desc db)"
  using sorted_sort_key[of "\<lambda>t. - count t" "transactions db"]
  by (simp add: query_transactions_desc_def sorted_map)

lemma get_output_table:
  assumes "ledger_ok db" and "transactions db \<noteq> []"
  shows "get_output stylize db sls tls cp resolve active =
     Inr (Table (build_headers stylize cp resolve active)
            (restructure stylize cp
               (grouped (entries db sls tls cp resolve active (query_transactions_desc db))) 0))"
proof -
  have "\<forall>t\<in>set (query_transactions_desc db).
          sender_ip_id t \<in> ip_id ` set (ips db) \<and> target_ip_id t \<in> ip_id ` set (ips db)"
    using refs_of_ok[OF assms(1)] by simp
  from organize_fold[OF this]
  have "organize db sls tls cp resolve active (query_transactions_desc db) []
      = Inr (grouped (entries db sls tls cp resolve active (query_transactions_desc db)))"
    by (simp add: fold_entries_empty)
  then show ?thesis
    using assms(2) by (simp add: get_output_def Let_def)
qed

lemma get_output_message:
  "get_output stylize db sls tls cp resolve active = Inr (Message m) \<longleftrightarrow>
   transactions db = [] \<and> m = no_records"
  by (auto simp: get_output_def Let_def split: sum.splits)

lemma entries_excluded:
  assumes "\<forall>t\<in>set ts. excluded db sls tls t"
  shows "entries db sls tls cp resolve active ts = []"
  using assms
  by (induction ts)
     (auto simp: entries_def map_filter_simps excluded_def entry_of_def split: option.splits)

text \<open>
  Claim C10. \<^verbatim>\<open>get_output\<close> returns a message exactly when the ledger has no
  transaction, and the message is then the fixed one. When a well-formed ledger has
  transactions and the sender and target lists exclude every one of them, it returns
  a table with the headers and no row.
\<close>

theorem get_output_no_records:
  "(get_output stylize db sls tls cp resolve active = Inr (Message no_records)
      \<longleftrightarrow> transactions db = []) \<and>
   (ledger_ok db \<longrightarrow> transactions db \<noteq> [] \<longrightarrow>
    (\<forall>t\<in>set (transactions db). excluded db sls tls t) \<longrightarrow>
      get_output stylize db sls tls cp resolve active
        = Inr (Table (build_headers stylize cp resolve active) []))"
proof (intro conjI impI)
  show "get_output stylize db sls tls cp resolve active = Inr (Message no_records)
      \<longleftrightarrow> transactions db = []"
    by (simp add: get_output_message)
  show "get_output stylize db sls tls cp resolve active
        = Inr (Table (build_headers stylize cp resolve active) [])"
    if ok: "ledger_ok db" and ne: "transactions db \<noteq> []"
      and ex: "\<forall>t\<in>set (transactions db). excluded db sls tls t"
  proof -
    from ex have "\<forall>t\<in>set (query_transactions_desc db). excluded db sls tls t" by simp
    then have "entries db sls tls cp resolve active (query_transactions_desc db) = []"
      by (rule entries_excluded)
    then show ?thesis by (simp add: get_output_table[OF ok ne])
  qed
qed

theorem get_output_no_records_witness:
  "get_output (\<lambda>t s. t) empty_ledger (Some (\<lambda>a. a \<noteq> ''A'')) None None False False
     = Inr (Message no_records) \<and>
   transactions empty_ledger = [] \<and>
   ledger_ok (ledger_ab 2) \<and> transactions (ledger_ab 2) \<noteq> [] \<and>
   excluded (ledger_ab 2) (Some (\<lambda>a. a \<noteq> ''A'')) None \<lparr>sender_ip_id = 1, target_ip_id = 2, count = 2\<rparr> \<and>
   get_output (\<lambda>t s. t) (ledger_ab 2) (Some (\<lambda>a. a \<noteq> ''A'')) None None False False
     = Inr (Table [''Sender'', ''Target'', ''ARP#''] [])"
proof -
  have e: "transactions empty_ledger = []" by (simp add: empty_ledger_def)
  have ne: "transactions (ledger_ab 2) \<noteq> []" by (simp add: ledger_ab_def)
  have x: "excluded (ledger_ab 2) (Some (\<lambda>a. a \<noteq> ''A'')) None \<lparr>sender_ip_id = 1, target_ip_id = 2, count = 2\<rparr>"
    by (simp add: excluded_def ledger_ab_def ip_by_id_def lists_reject_def)
  then have all: "\<forall>t\<in>set (transactions (ledger_ab 2)). excluded (ledger_ab 2) (Some (\<lambda>a. a \<noteq> ''A'')) None t"
    by (simp add: ledger_ab_def)
  have h: "build_headers (\<lambda>t s. t) None False False = [''Sender'', ''Target'', ''ARP#'']"
    by (simp add: build_headers_def)
  from get_output_no_records[of "\<lambda>t s. t" empty_ledger "Some (\<lambda>a. a \<noteq> ''A'')" None None False False]
    get_output_no_records[of "\<lambda>t s. t" "ledger_ab 2" "Some (\<lambda>a. a \<noteq> ''A'')" None None False False]
  show ?thesis
    using e ne x all h ledger_ab_ok[of 2] by simp
qed

lemma grouped_rows:
  "r \<in> set (concat (map snd (grouped es))) \<Longrightarrow>
   \<exists>e\<in>set es. r = fst (snd e) \<or> r = snd (snd e)"
proof (induction es rule: grouped.induct)
  case 1
  then show ?case by simp
next
  case (2 k r1 r0 es)
  from "2.prems" consider "r = r1"
    | "r \<in> (\<lambda>e. snd (snd e)) ` set (filter (\<lambda>e. fst e = k) es)"
    | "r \<in> set (concat (map snd (grouped (filter (\<lambda>e. fst e \<noteq> k) es))))"
    by auto
  then show ?case
  proof cases
    case 1
    then show ?thesis by simp
  next
    case 2
    then show ?thesis by auto
  next
    case 3
    from "2.IH"[OF this] obtain e
      where "e \<in> set es" "r = fst (snd e) \<or> r = snd (snd e)" by auto
    then show ?thesis by (metis list.set_intros(2))
  qed
qed

lemma entries_row:
  assumes "e \<in> set (entries db sls tls cp resolve active ts)"
  shows "\<exists>t s g. ip_by_id db (target_ip_id t) = Some g \<and>
           e = (ip_value s, make_row db cp resolve active True t s g,
                make_row db cp resolve active False t s g)"
proof -
  from assms obtain t where "entry_of db sls tls cp resolve active t = Some e"
    by (auto simp: entries_def List.map_filter_def)
  then show ?thesis
    by (auto simp: entry_of_def split: option.splits if_splits)
qed

lemma make_row_active:
  "make_row db cp resolve True new_sender t s g ! 1 = ip_value g"
  "make_row db cp resolve True new_sender t s g ! 2 = sploit_char cp g"
  by (simp_all add: make_row_def)

lemma sploit_char_nonempty:
  "sploit_char cp g \<noteq> [] \<longleftrightarrow> \<not> truthy (mac_address g) \<and> arp_resolve_attempted g"
  by (auto simp: sploit_char_def split: option.splits)

lemma stale_target:
  assumes "ledger_ok db" and "ip_by_id db k = Some g"
  shows "sploit_char cp g \<noteq> [] \<longleftrightarrow>
         (\<exists>i\<in>set (ips db). ip_value i = ip_value g \<and> arp_resolve_attempted i \<and> mac_address i = None)"
proof -
  from assms(2) have gin: "g \<in> set (ips db)" by (auto simp: ip_by_id_def find_Some_iff)
  with assms(1) have mac: "mac_address g \<noteq> Some []" by (simp add: ledger_ok_def)
  have dv: "distinct (map ip_value (ips db))" using assms(1) by (simp add: ledger_ok_def)
  have uniq: "i = g" if "i \<in> set (ips db)" "ip_value i = ip_value g" for i
    using dv that gin by (meson distinct_map inj_onD)
  have "\<not> truthy (mac_address g) \<longleftrightarrow> mac_address g = None"
    using mac by (cases "mac_address g") (simp_all add: truthy_def)
  then have "sploit_char cp g \<noteq> [] \<longleftrightarrow> arp_resolve_attempted g \<and> mac_address g = None"
    by (auto simp: sploit_char_nonempty)
  also have "\<dots> \<longleftrightarrow> (\<exists>i\<in>set (ips db). ip_value i = ip_value g \<and> arp_resolve_attempted i \<and> mac_address i = None)"
    using gin uniq by blast
  finally show ?thesis .
qed

text \<open>
  Claim C7. With liveness mode enabled, the table of \<^verbatim>\<open>get_output\<close> on a well-formed
  ledger is the styling of rows in which the flag cell (the third) is non-empty exactly
  when the entity of the row's target (the second cell) has \<^verbatim>\<open>arp_resolve_attempted\<close>
  true and no hardware address; for every other target the flag cell is the empty
  string. Without a colour profile the table has exactly these rows.
\<close>

theorem get_output_liveness_flag:
  assumes "ledger_ok db"
    and "get_output stylize db sls tls cp resolve True = Inr (Table hs rows)"
  shows "\<exists>rd. rows = restructure stylize cp rd 0 \<and>
           (\<forall>r\<in>set (restructure stylize None rd 0).
              r ! 2 \<noteq> [] \<longleftrightarrow>
                (\<exists>i\<in>set (ips db). ip_value i = r ! 1 \<and> arp_resolve_attempted i \<and>
                                   mac_address i = None))"
proof -
  let ?es = "entries db sls tls cp resolve True (query_transactions_desc db)"
  have ne: "transactions db \<noteq> []"
    using assms(2) by (auto simp: get_output_def Let_def)
  from assms(2) have rows: "rows = restructure stylize cp (grouped ?es) 0"
    by (simp add: get_output_table[OF assms(1) ne])
  have flag: "r ! 2 \<noteq> [] \<longleftrightarrow>
      (\<exists>i\<in>set (ips db). ip_value i = r ! 1 \<and> arp_resolve_attempted i \<and> mac_address i = None)"
    if "r \<in> set (restructure stylize None (grouped ?es) 0)" for r
  proof -
    from that have "r \<in> set (concat (map snd (grouped ?es)))"
      by (simp only: restructure_plain)
    from grouped_rows[OF this] obtain e where e: "e \<in> set ?es" "r = fst (snd e) \<or> r = snd (snd e)"
      by blast
    from entries_row[OF e(1)] obtain t s g where g: "ip_by_id db (target_ip_id t) = Some g"
      and eq: "e = (ip_value s, make_row db cp resolve True True t s g,
                make_row db cp resolve True False t s g)"
      by blast
    from e(2) eq obtain b where r: "r = make_row db cp resolve True b t s g" by auto
    show ?thesis
      unfolding r make_row_active by (rule stale_target[OF assms(1) g])
  qed
  show ?thesis
    using rows flag by blast
qed

lemma demo_ledger_ok: "ledger_ok demo_ledger"
  by (simp add: ledger_ok_def demo_ledger_def tx_key_def)

lemma demo_report_active:
  "get_output (\<lambda>t s. t) demo_ledger None None None True True =
     Inr (Table [''Sender'', ''Target'', ''TS'', ''ARP#'', ''Sender PTR'', ''Target PTR'']
            [[''A'', ''B'', [], ''2'', ''a.lan'', []],
             [[], ''C'', ''X'', ''1'', [], []]])"
  by (simp add: get_output_def query_transactions_desc_def demo_ledger_def ip_by_id_def
      lists_reject_def make_row_def sploit_char_def truthy_def str_def first_ptr_def ptr_of_def
      build_headers_def Let_def)

theorem get_output_liveness_flag_witness:
  "ledger_ok demo_ledger \<and>
   get_output (\<lambda>t s. t) demo_ledger None None None True True =
     Inr (Table [''Sender'', ''Target'', ''TS'', ''ARP#'', ''Sender PTR'', ''Target PTR'']
            [[''A'', ''B'', [], ''2'', ''a.lan'', []],
             [[], ''C'', ''X'', ''1'', [], []]]) \<and>
   (\<exists>rd. [[''A'', ''B'', [], ''2'', ''a.lan'', []], [[], ''C'', ''X'', ''1'', [], []]]
            = restructure (\<lambda>t s. t) None rd 0 \<and>
         (\<forall>r\<in>set (restructure (\<lambda>t s. t) None rd 0).
              r ! 2 \<noteq> [] \<longleftrightarrow>
                (\<exists>i\<in>set (ips demo_ledger). ip_value i = r ! 1 \<and> arp_resolve_attempted i \<and>
                                   mac_address i = None)))"
  using get_output_liveness_flag[OF demo_ledger_ok demo_report_active]
    demo_ledger_ok demo_report_active
  by blast

lemma interleaved_batch:
  "handle_packets quiet_net
     [who_has ''A'' ''B'', who_has ''C'' ''D'', who_has ''A'' ''E'',
      who_has ''A'' ''B'', who_has ''C'' ''D'', who_has ''A'' ''B'']
     empty_ledger False False None = Inr (interleaved_ledger, [])"
  by (simp add: handle_packets_def handle_packet_def get_or_create_ip_def who_has_def
      unpack_packet_def unpack_arp_def truthy_def empty_ledger_def next_id_def Let_def
      find_transaction_def interleaved_ledger_def)

text \<open>
  Claim C4, as stated, fails: the rows of the report are not in descending count
  order, and rows of a sender that are not consecutive in the descending listing are
  put in one group all the same. The listing below is \<open>(A, B): 3\<close>, \<open>(C, D): 2\<close>,
  \<open>(A, E): 1\<close>; the report puts \<open>(A, E)\<close>, count 1, unlabelled, before \<open>(C, D)\<close>,
  count 2.
\<close>

theorem get_output_order_counterexample:
  "handle_packets quiet_net
     [who_has ''A'' ''B'', who_has ''C'' ''D'', who_has ''A'' ''E'',
      who_has ''A'' ''B'', who_has ''C'' ''D'', who_has ''A'' ''B'']
     empty_ledger False False None = Inr (interleaved_ledger, []) \<and>
   map count (query_transactions_desc interleaved_ledger) = [3, 2, 1] \<and>
   get_output (\<lambda>t s. t) interleaved_ledger None None None False False =
     Inr (Table [''Sender'', ''Target'', ''ARP#'']
            [[''A'', ''B'', ''3''], [[], ''E'', ''1''], [''C'', ''D'', ''2'']])"
proof -
  have q: "map count (query_transactions_desc interleaved_ledger) = [3, 2, 1]"
    by (simp add: query_transactions_desc_def interleaved_ledger_def)
  have g: "get_output (\<lambda>t s. t) interleaved_ledger None None None False False =
     Inr (Table [''Sender'', ''Target'', ''ARP#'']
            [[''A'', ''B'', ''3''], [[], ''E'', ''1''], [''C'', ''D'', ''2'']])"
    by (simp add: get_output_def query_transactions_desc_def interleaved_ledger_def ip_by_id_def
        lists_reject_def make_row_def str_def build_headers_def Let_def)
  show ?thesis using interleaved_batch q g by simp
qed

lemma grouped_keys: "fst ` set (grouped es) \<subseteq> fst ` set es"
proof (induction es rule: grouped.induct)
  case 1
  then show ?case by simp
next
  case (2 k r1 r0 es)
  then show ?case by auto
qed

lemma grouped_distinct: "distinct (map fst (grouped es))"
proof (induction es rule: grouped.induct)
  case 1
  then show ?case by simp
next
  case (2 k r1 r0 es)
  have "k \<notin> fst ` set (grouped (filter (\<lambda>e. fst e \<noteq> k) es))"
    using grouped_keys[of "filter (\<lambda>e. fst e \<noteq> k) es"] by auto
  with 2 show ?case by simp
qed

lemma grouped_labels:
  assumes "\<forall>e\<in>set es. fst (snd e) ! 0 = fst e \<and> snd (snd e) ! 0 = []"
  shows "\<forall>(k, rows)\<in>set (grouped es).
           rows \<noteq> [] \<and> hd rows ! 0 = k \<and> (\<forall>r\<in>set (tl rows). r ! 0 = [])"
  using assms
proof (induction es rule: grouped.induct)
  case 1
  then show ?case by simp
next
  case (2 k r1 r0 es)
  have "\<forall>e\<in>set (filter (\<lambda>e. fst e \<noteq> k) es). fst (snd e) ! 0 = fst e \<and> snd (snd e) ! 0 = []"
    using "2.prems" by simp
  from "2.IH"[OF this] "2.prems" show ?case by auto
qed

lemma entries_labels:
  assumes "e \<in> set (entries db sls tls cp resolve active ts)"
  shows "fst (snd e) ! 0 = fst e \<and> snd (snd e) ! 0 = []"
  using entries_row[OF assms] by (auto simp: make_row_def)

text \<open>
  Claim C4, amended. For a well-formed ledger with at least one transaction, the
  report is built from the transactions listed by descending count. All the accepted
  rows of one sender, consecutive in that listing or not, form one group; the groups
  are in the order in which their senders first appear in the listing, and the rows of
  a group keep the order of the listing, so counts descend inside a group (not across
  the whole table). Every sender has one group; its first row carries the sender
  label and its other rows a blank. In particular ingesting \<open>[(A,B), (A,B), (A,C)]\<close>
  gives sender \<open>A\<close> labelled once with two target rows, \<open>(A, B)\<close> with count 2 before
  \<open>(A, C)\<close> with count 1.
\<close>

theorem get_output_grouped:
  assumes "ledger_ok db" and "transactions db \<noteq> []"
  shows "get_output stylize db sls tls cp resolve active =
           Inr (Table (build_headers stylize cp resolve active)
                  (restructure stylize cp
                     (grouped (entries db sls tls cp resolve active
                                 (query_transactions_desc db))) 0)) \<and>
         sorted_wrt (\<lambda>x y. count y \<le> count x) (query_transactions_desc db) \<and>
         set (query_transactions_desc db) = set (transactions db) \<and>
         distinct (map fst (grouped (entries db sls tls cp resolve active
                                       (query_transactions_desc db)))) \<and>
         (\<forall>(k, rows)\<in>set (grouped (entries db sls tls cp resolve active
                                       (query_transactions_desc db))).
            rows \<noteq> [] \<and> hd rows ! 0 = k \<and> (\<forall>r\<in>set (tl rows). r ! 0 = []))"
proof (intro conjI)
  show "get_output stylize db sls tls cp resolve active =
           Inr (Table (build_headers stylize cp resolve active)
                  (restructure stylize cp
                     (grouped (entries db sls tls cp resolve active
                                 (query_transactions_desc db))) 0))"
    by (rule get_output_table[OF assms])
  show "sorted_wrt (\<lambda>x y. count y \<le> count x) (query_transactions_desc db)"
    by (rule query_transactions_desc_sorted)
  show "set (query_transactions_desc db) = set (transactions db)" by simp
  show "distinct (map fst (grouped (entries db sls tls cp resolve active
                                       (query_transactions_desc db))))"
    by (rule grouped_distinct)
  show "\<forall>(k, rows)\<in>set (grouped (entries db sls tls cp resolve active
                                       (query_transactions_desc db))).
            rows \<noteq> [] \<and> hd rows ! 0 = k \<and> (\<forall>r\<in>set (tl rows). r ! 0 = [])"
    by (rule grouped_labels) (simp add: entries_labels)
qed

lemma demo_entries:
  "grouped (entries demo_ledger None None None False False (query_transactions_desc demo_ledger))
     = [(''A'', [[''A'', ''B'', ''2''], [[], ''C'', ''1'']])]"
  by (simp add: entries_def entry_of_def query_transactions_desc_def demo_ledger_def ip_by_id_def
      lists_reject_def make_row_def str_def)

theorem get_output_grouped_witness:
  "ledger_ok demo_ledger \<and> transactions demo_ledger \<noteq> [] \<and>
   handle_packets demo_net [who_has ''A'' ''B'', who_has ''A'' ''B'', who_has ''A'' ''C'']
     empty_ledger True True (Some ''eth0'') = Inr (demo_ledger, demo_fx) \<and>
   map count (query_transactions_desc demo_ledger) = [2, 1] \<and>
   get_output (\<lambda>t s. t) demo_ledger None None None False False =
     Inr (Table [''Sender'', ''Target'', ''ARP#''] [[''A'', ''B'', ''2''], [[], ''C'', ''1'']])"
proof -
  have ne: "transactions demo_ledger \<noteq> []" by (simp add: demo_ledger_def)
  have q: "map count (query_transactions_desc demo_ledger) = [2, 1]"
    by (simp add: query_transactions_desc_def demo_ledger_def)
  have h: "build_headers (\<lambda>t s. t) None False False = [''Sender'', ''Target'', ''ARP#'']"
    by (simp add: build_headers_def)
  from get_output_grouped[OF demo_ledger_ok ne, of "\<lambda>t s. t" None None None False False]
  have "get_output (\<lambda>t s. t) demo_ledger None None None False False =
     Inr (Table [''Sender'', ''Target'', ''ARP#''] [[''A'', ''B'', ''2''], [[], ''C'', ''1'']])"
    by (simp add: demo_entries h)
  then show ?thesis using demo_ledger_ok ne demo_batch q by simp
qed


section \<open>The filter in live capture and in offline import\<close>

lemma find_SomeD: "find P xs = Some x \<Longrightarrow> x \<in> set xs \<and> P x"
  by (induction xs) (auto split: if_splits)

lemma get_or_create_ip_value_set:
  assumes "get_or_create_ip net v db resolve ptr_arg interface active = (i, db', fx)"
  shows "ip_value ` set (ips db') = insert v (ip_value ` set (ips db))"
  using get_or_create_ip_cases[OF assms]
proof
  assume "find (\<lambda>i. ip_value i = v) (ips db) = Some i \<and> db' = db \<and> fx = []"
  then have "i \<in> set (ips db)" "ip_value i = v" "db' = db"
    by (auto dest: find_SomeD)
  then show ?thesis by auto
next
  assume "find (\<lambda>i. ip_value i = v) (ips db) = None \<and>
          i = created_ip net v db interface active \<and>
          db' = db\<lparr>ips := ips db @ [created_ip net v db interface active],
                   ptrs := ptrs db @ created_ptrs net v db resolve ptr_arg\<rparr> \<and>
          fx = created_fx v resolve ptr_arg interface active"
  then show ?thesis by (auto simp: created_ip_simps)
qed

lemma handle_packet_value_set:
  assumes "handle_packet net (a, b) db resolve active interface = (db', fx)"
  shows "ip_value ` set (ips db') = insert a (insert b (ip_value ` set (ips db)))"
proof -
  obtain s db1 fx1 where g1: "get_or_create_ip net a db resolve None None False = (s, db1, fx1)"
    by (cases "get_or_create_ip net a db resolve None None False") auto
  obtain g db2 fx2 where g2: "get_or_create_ip net b db1 resolve None interface active = (g, db2, fx2)"
    by (cases "get_or_create_ip net b db1 resolve None interface active") auto
  have db': "db' = upsert_tx db2 (ip_id s) (ip_id g) 1"
    using assms by (simp add: handle_packet_upsert g1 g2)
  show ?thesis
    unfolding db' using get_or_create_ip_value_set[OF g1] get_or_create_ip_value_set[OF g2]
    by auto
qed

lemma handle_packets_loop_value_set:
  assumes "handle_packets_loop net pairs db resolve active interface = (db', fx)"
  shows "ip_value ` set (ips db') = ip_value ` set (ips db) \<union> fst ` set pairs \<union> snd ` set pairs"
  using assms
proof (induction pairs arbitrary: db db' fx)
  case Nil
  then show ?case by simp
next
  case (Cons pkt pairs)
  obtain a b where pkt: "pkt = (a, b)" by (cases pkt)
  obtain db1 fx1 where h1: "handle_packet net (a, b) db resolve active interface = (db1, fx1)"
    by (cases "handle_packet net (a, b) db resolve active interface") auto
  obtain db2 fx2 where h2: "handle_packets_loop net pairs db1 resolve active interface = (db2, fx2)"
    by (cases "handle_packets_loop net pairs db1 resolve active interface") auto
  from Cons.prems have db': "db' = db2" by (simp add: pkt h1 h2)
  show ?case
    unfolding db' Cons.IH[OF h2] handle_packet_value_set[OF h1]
    by (auto simp: pkt)
qed

lemma unpack_packets_pairs:
  assumes "unpack_packets ps = Inr pairs" and "pr \<in> set pairs"
  shows "\<exists>p\<in>set ps. \<exists>ar. arp_layer p = Some ar \<and> pr = (psrc ar, pdst ar)"
  using assms
proof (induction ps arbitrary: pairs)
  case Nil
  then show ?case by simp
next
  case (Cons p ps)
  from Cons.prems(1) obtain ar rest where ar: "arp_layer p = Some ar"
    and rest: "unpack_packets ps = Inr rest" and pairs: "pairs = (psrc ar, pdst ar) # rest"
    by (auto simp: unpack_packet_def unpack_arp_def split: option.splits sum.splits)
  show ?case
  proof (cases "pr = (psrc ar, pdst ar)")
    case True
    with ar show ?thesis by auto
  next
    case False
    with Cons.prems(2) pairs have "pr \<in> set rest" by simp
    from Cons.IH[OF rest this] show ?thesis by auto
  qed
qed

lemma do_sniff_accepted:
  "p \<in> set (do_sniff wire n sls tls) \<Longrightarrow> p \<in> set wire \<and> filter_packet p sls tls \<noteq> None"
  by (auto simp: do_sniff_def Let_def split: if_splits dest: in_set_takeD)

lemma txs_for_needs_entity:
  "txs_for db a b \<noteq> [] \<Longrightarrow> a \<in> ip_value ` set (ips db) \<and> b \<in> ip_value ` set (ips db)"
proof -
  assume "txs_for db a b \<noteq> []"
  then obtain t where "tx_pair db t = (Some a, Some b)"
    by (auto simp: txs_for_def filter_empty_conv)
  then obtain s g where "ip_by_id db (sender_ip_id t) = Some s" "ip_value s = a"
    "ip_by_id db (target_ip_id t) = Some g" "ip_value g = b"
    by (auto simp: tx_pair_def)
  then show ?thesis by (auto simp: ip_by_id_def find_Some_iff)
qed

lemma xb_batch:
  "handle_packets quiet_net [who_has ''X'' ''B''] empty_ledger False False None
      = Inr (ledger_xb, [])"
  by (simp add: handle_packets_def handle_packet_def get_or_create_ip_def who_has_def
      unpack_packet_def unpack_arp_def truthy_def empty_ledger_def next_id_def Let_def
      find_transaction_def ledger_xb_def)

text \<open>
  Claim C8, as stated, fails for the offline import: \<^verbatim>\<open>analyze\<close> calls
  \<^verbatim>\<open>filter_packet\<close> without the lists, so the request from \<open>X\<close>, which the sender list
  rejects, is ingested: the destination ledger gets an entity for \<open>X\<close> and a
  transaction from it. The lists only keep the row out of the report.
\<close>

theorem analyze_pcap_unfiltered_counterexample:
  "filter_packet (who_has ''X'' ''B'') (Some deny_X) None = None \<and>
   fst (analyze cwd_only quiet_net (\<lambda>t s. t) capture_files ''out.db'' (Some deny_X) None
          [''cap.pcap''] [] None False) ''out.db'' = Some (SqliteFile ledger_xb) \<and>
   snd (analyze cwd_only quiet_net (\<lambda>t s. t) capture_files ''out.db'' (Some deny_X) None
          [''cap.pcap''] [] None False) = Inr (Table [''Sender'', ''Target'', ''ARP#''] []) \<and>
   map ip_value (ips ledger_xb) = [''X'', ''B''] \<and>
   map count (txs_for ledger_xb ''X'' ''B'') = [1]"
proof -
  have f: "filter_packet (who_has ''X'' ''B'') (Some deny_X) None = None"
    by (simp add: filter_packet_def validate_packet_def who_has_def unpack_arp_def
        lists_reject_def deny_X_def)
  have k: "filter_packet (who_has ''X'' ''B'') None None \<noteq> None"
    by (simp add: filter_packet_def validate_packet_def who_has_def unpack_arp_def
        lists_reject_def)
  have g: "get_output (\<lambda>t s. t) ledger_xb (Some deny_X) None None False False
      = Inr (Table [''Sender'', ''Target'', ''ARP#''] [])"
    by (simp add: get_output_def query_transactions_desc_def ledger_xb_def ip_by_id_def
        lists_reject_def deny_X_def build_headers_def Let_def)
  have a: "analyze cwd_only quiet_net (\<lambda>t s. t) capture_files ''out.db'' (Some deny_X) None
          [''cap.pcap''] [] None False
      = (capture_files(''out.db'' \<mapsto> SqliteFile ledger_xb),
         Inr (Table [''Sender'', ''Target'', ''ARP#''] []))"
    using k
    by (simp add: analyze_def create_db_def cwd_only_def capture_files_def rdpcap_def read_db_def
        xb_batch g)
  have v: "map ip_value (ips ledger_xb) = [''X'', ''B'']" by (simp add: ledger_xb_def)
  have t: "map count (txs_for ledger_xb ''X'' ''B'') = [1]"
    by (simp add: txs_for_def ledger_xb_def tx_pair_def ip_by_id_def)
  show ?thesis using f a v t by simp
qed

lemma filter_packet_no_lists:
  "filter_packet p None None = map_option unpack_arp (validate_packet p)"
  by (cases "validate_packet p")
     (auto simp: filter_packet_def lists_reject_def split: prod.splits)

lemma validate_packet_layer: "validate_packet p = Some ar \<Longrightarrow> arp_layer p = Some ar"
  by (auto simp: validate_packet_def split: option.splits if_splits)

lemma unpack_validated:
  "\<exists>pairs. unpack_packets (filter (\<lambda>p. validate_packet p \<noteq> None) pkts) = Inr pairs \<and>
     (\<forall>p\<in>set pkts. \<forall>ar. validate_packet p = Some ar \<longrightarrow> (psrc ar, pdst ar) \<in> set pairs)"
proof (induction pkts)
  case Nil
  then show ?case by simp
next
  case (Cons p pkts)
  then obtain pairs where u: "unpack_packets (filter (\<lambda>p. validate_packet p \<noteq> None) pkts) = Inr pairs"
    and m: "\<And>q ar. q \<in> set pkts \<Longrightarrow> validate_packet q = Some ar \<Longrightarrow> (psrc ar, pdst ar) \<in> set pairs"
    by blast
  show ?case
  proof (cases "validate_packet p")
    case None
    then have "unpack_packets (filter (\<lambda>p. validate_packet p \<noteq> None) (p # pkts)) = Inr pairs"
      using u by (simp del: not_None_eq)
    moreover have "(psrc a, pdst a) \<in> set pairs"
      if "q \<in> set (p # pkts)" "validate_packet q = Some a" for q a
      using that None m by auto
    ultimately show ?thesis by blast
  next
    case (Some ar)
    have "unpack_packets (filter (\<lambda>p. validate_packet p \<noteq> None) (p # pkts))
        = Inr ((psrc ar, pdst ar) # pairs)"
      using Some u validate_packet_layer[OF Some]
      by (simp add: unpack_packet_def unpack_arp_def del: not_None_eq)
    moreover have "(psrc a, pdst a) \<in> set ((psrc ar, pdst ar) # pairs)"
      if "q \<in> set (p # pkts)" "validate_packet q = Some a" for q a
      using that Some m by auto
    ultimately show ?thesis by blast
  qed
qed

lemma analyze_pcap_step:
  assumes "files pfile = Some (PcapFile pkts)" and "files outfile = Some (SqliteFile out)"
    and "ledger_ok out"
  shows "\<exists>out1 fx.
           handle_packets net (filter (\<lambda>p. validate_packet p \<noteq> None) pkts) out False False None
             = Inr (out1, fx) \<and>
           analyze_pcap net outfile (pfile # rest) files
             = analyze_pcap net outfile rest (files(outfile \<mapsto> SqliteFile out1)) \<and>
           (\<forall>p\<in>set pkts. \<forall>ar. validate_packet p = Some ar \<longrightarrow>
              psrc ar \<in> ip_value ` set (ips out1) \<and> pdst ar \<in> ip_value ` set (ips out1) \<and>
              txs_for out1 (psrc ar) (pdst ar) \<noteq> [])"
proof -
  let ?kept = "filter (\<lambda>p. validate_packet p \<noteq> None) pkts"
  from unpack_validated[of pkts] obtain pairs where u: "unpack_packets ?kept = Inr pairs"
    and m: "\<And>p ar. p \<in> set pkts \<Longrightarrow> validate_packet p = Some ar \<Longrightarrow> (psrc ar, pdst ar) \<in> set pairs"
    by blast
  obtain out1 fx where loop: "handle_packets_loop net pairs out False False None = (out1, fx)"
    by (cases "handle_packets_loop net pairs out False False None") auto
  have hp: "handle_packets net ?kept out False False None = Inr (out1, fx)"
    by (simp add: handle_packets_def u loop del: not_None_eq)
  have kept: "filter (\<lambda>p. filter_packet p None None \<noteq> None) pkts = ?kept"
    by (simp add: filter_packet_no_lists del: not_None_eq)
  have step: "analyze_pcap net outfile (pfile # rest) files
      = analyze_pcap net outfile rest (files(outfile \<mapsto> SqliteFile out1))"
    using assms(1,2) by (simp add: rdpcap_def read_db_def kept hp del: not_None_eq)
  note vals = handle_packets_loop_value_set[OF loop]
  note cnts = handle_packets_loop_counts[OF assms(3) loop]
  have ing: "psrc ar \<in> ip_value ` set (ips out1) \<and> pdst ar \<in> ip_value ` set (ips out1) \<and>
              txs_for out1 (psrc ar) (pdst ar) \<noteq> []"
    if "p \<in> set pkts" "validate_packet p = Some ar" for p ar
  proof -
    from m[OF that] have mem: "(psrc ar, pdst ar) \<in> set pairs" .
    then have "psrc ar \<in> fst ` set pairs" "pdst ar \<in> snd ` set pairs" by force+
    with cnts[of "psrc ar" "pdst ar"] mem show ?thesis unfolding vals by simp
  qed
  show ?thesis using hp step ing by blast
qed

lemma analyze_ledger_lists:
  "fst (analyze creatable net stylize files outfile sls tls pcaps sqlites cp resolve)
   = fst (analyze creatable net stylize' files outfile sls' tls' pcaps sqlites cp' resolve')"
  by (simp add: analyze_def split: prod.splits option.splits sum.splits)

lemma analyze_report_lists:
  assumes "analyze creatable net stylize files outfile sls tls pcaps sqlites cp resolve = (files', Inr rep)"
  shows "\<exists>out. files' outfile = Some (SqliteFile out) \<and>
           get_output stylize out sls tls cp resolve False = Inr rep"
  using assms
  by (auto simp: analyze_def read_db_def split: prod.splits option.splits sum.splits node.splits)

text \<open>
  Claim C8, amended. In live capture \<^verbatim>\<open>do_sniff\<close> keeps only the packets the
  Allow/Deny filter accepts, so a rejected event never reaches \<^verbatim>\<open>handle_packets\<close>: when
  every event of the wire that names an address \<open>x\<close> (as sender or as target) is
  rejected and the ledger had no entity for \<open>x\<close>, the batch creates no entity for
  \<open>x\<close> and no transaction from or to \<open>x\<close>. In the offline import of a capture file the
  filter is called without the lists, so it only checks that a packet is a who-has
  request: \<^verbatim>\<open>analyze\<close> hands exactly the who-has requests of the file to
  \<^verbatim>\<open>handle_packets\<close>, and every one of them gets its two entities and its transaction
  in the destination ledger, whatever the lists say. The ledger \<^verbatim>\<open>analyze\<close> leaves
  does not depend on the lists; they are applied only when it renders the report of
  that ledger.
\<close>

theorem filter_rejects_before_ingestion:
  "(handle_packets net (do_sniff wire n sls tls) db resolve active interface = Inr (db', fx) \<longrightarrow>
    x \<notin> ip_value ` set (ips db) \<longrightarrow>
    (\<forall>p\<in>set wire. \<forall>ar. arp_layer p = Some ar \<longrightarrow> psrc ar = x \<or> pdst ar = x \<longrightarrow>
           filter_packet p sls tls = None) \<longrightarrow>
      (\<forall>p\<in>set (do_sniff wire n sls tls). filter_packet p sls tls \<noteq> None) \<and>
      x \<notin> ip_value ` set (ips db') \<and>
      (\<forall>b. txs_for db' x b = [] \<and> txs_for db' b x = [])) \<and>
   (\<forall>p. filter_packet p None None = map_option unpack_arp (validate_packet p)) \<and>
   (files pfile = Some (PcapFile pkts) \<longrightarrow> files outfile = Some (SqliteFile out) \<longrightarrow>
    ledger_ok out \<longrightarrow>
      (\<exists>out1 fx1.
         handle_packets net (filter (\<lambda>p. validate_packet p \<noteq> None) pkts) out False False None
           = Inr (out1, fx1) \<and>
         analyze_pcap net outfile (pfile # rest) files
           = analyze_pcap net outfile rest (files(outfile \<mapsto> SqliteFile out1)) \<and>
         (\<forall>p\<in>set pkts. \<forall>ar. validate_packet p = Some ar \<longrightarrow>
            psrc ar \<in> ip_value ` set (ips out1) \<and> pdst ar \<in> ip_value ` set (ips out1) \<and>
            txs_for out1 (psrc ar) (pdst ar) \<noteq> []))) \<and>
   fst (analyze creatable net stylize files outfile sls tls pcaps sqlites cp resolve)
     = fst (analyze creatable net stylize files outfile sls' tls' pcaps sqlites cp resolve) \<and>
   (analyze creatable net stylize files outfile sls tls pcaps sqlites cp resolve = (files', Inr rep) \<longrightarrow>
      (\<exists>led. files' outfile = Some (SqliteFile led) \<and>
             get_output stylize led sls tls cp resolve False = Inr rep))"
proof (intro conjI impI allI)
  show "filter_packet p None None = map_option unpack_arp (validate_packet p)" for p
    by (rule filter_packet_no_lists)
  show "\<exists>out1 fx1.
         handle_packets net (filter (\<lambda>p. validate_packet p \<noteq> None) pkts) out False False None
           = Inr (out1, fx1) \<and>
         analyze_pcap net outfile (pfile # rest) files
           = analyze_pcap net outfile rest (files(outfile \<mapsto> SqliteFile out1)) \<and>
         (\<forall>p\<in>set pkts. \<forall>ar. validate_packet p = Some ar \<longrightarrow>
            psrc ar \<in> ip_value ` set (ips out1) \<and> pdst ar \<in> ip_value ` set (ips out1) \<and>
            txs_for out1 (psrc ar) (pdst ar) \<noteq> [])"
    if "files pfile = Some (PcapFile pkts)" "files outfile = Some (SqliteFile out)" "ledger_ok out"
    by (rule analyze_pcap_step[OF that])
  show "fst (analyze creatable net stylize files outfile sls tls pcaps sqlites cp resolve)
     = fst (analyze creatable net stylize files outfile sls' tls' pcaps sqlites cp resolve)"
    by (rule analyze_ledger_lists)
  show "\<exists>led. files' outfile = Some (SqliteFile led) \<and>
             get_output stylize led sls tls cp resolve False = Inr rep"
    if "analyze creatable net stylize files outfile sls tls pcaps sqlites cp resolve = (files', Inr rep)"
    by (rule analyze_report_lists[OF that])
next
  assume hp: "handle_packets net (do_sniff wire n sls tls) db resolve active interface = Inr (db', fx)"
    and fresh: "x \<notin> ip_value ` set (ips db)"
    and rej: "\<forall>p\<in>set wire. \<forall>ar. arp_layer p = Some ar \<longrightarrow> psrc ar = x \<or> pdst ar = x \<longrightarrow>
           filter_packet p sls tls = None"
  show "\<forall>p\<in>set (do_sniff wire n sls tls). filter_packet p sls tls \<noteq> None"
    using do_sniff_accepted by blast
  from hp obtain pairs where up: "unpack_packets (do_sniff wire n sls tls) = Inr pairs"
    and loop: "handle_packets_loop net pairs db resolve active interface = (db', fx)"
    by (auto simp: handle_packets_def split: sum.splits if_splits)
  have clean: "fst pr \<noteq> x \<and> snd pr \<noteq> x" if "pr \<in> set pairs" for pr
  proof -
    from unpack_packets_pairs[OF up that] obtain p ar
      where p: "p \<in> set (do_sniff wire n sls tls)" and ar: "arp_layer p = Some ar"
        and pr: "pr = (psrc ar, pdst ar)" by blast
    from do_sniff_accepted[OF p] have w: "p \<in> set wire" and ok: "filter_packet p sls tls \<noteq> None"
      by simp_all
    have "\<not> (psrc ar = x \<or> pdst ar = x)"
    proof
      assume "psrc ar = x \<or> pdst ar = x"
      then have "filter_packet p sls tls = None"
        by (rule rej[rule_format, OF w ar])
      with ok show False by simp
    qed
    then show ?thesis by (simp add: pr)
  qed
  show nx: "x \<notin> ip_value ` set (ips db')"
    unfolding handle_packets_loop_value_set[OF loop] using fresh clean by auto
  show "txs_for db' x b = []" for b
    using txs_for_needs_entity[of db' x b] nx by blast
  show "txs_for db' b x = []" for b
    using txs_for_needs_entity[of db' b x] nx by blast
qed

lemma live_example:
  "handle_packets quiet_net (do_sniff [who_has ''X'' ''B'', who_has ''A'' ''B''] 0 (Some deny_X) None)
     empty_ledger False False None = Inr (ledger_ab 1, [])"
  by (simp add: do_sniff_def filter_packet_def validate_packet_def lists_reject_def deny_X_def
      handle_packets_def handle_packet_def get_or_create_ip_def who_has_def
      unpack_packet_def unpack_arp_def truthy_def empty_ledger_def next_id_def Let_def
      find_transaction_def ledger_ab_def)

lemma offline_example:
  "analyze cwd_only quiet_net (\<lambda>t s. t) capture_files ''out.db'' (Some deny_X) None
          [''cap.pcap''] [] None False
      = (capture_files(''out.db'' \<mapsto> SqliteFile ledger_xb),
         Inr (Table [''Sender'', ''Target'', ''ARP#''] []))"
proof -
  have k: "filter_packet (who_has ''X'' ''B'') None None \<noteq> None"
    by (simp add: filter_packet_def validate_packet_def who_has_def unpack_arp_def
        lists_reject_def)
  have g: "get_output (\<lambda>t s. t) ledger_xb (Some deny_X) None None False False
      = Inr (Table [''Sender'', ''Target'', ''ARP#''] [])"
    by (simp add: get_output_def query_transactions_desc_def ledger_xb_def ip_by_id_def
        lists_reject_def deny_X_def build_headers_def Let_def)
  show ?thesis
    using k
    by (simp add: analyze_def create_db_def cwd_only_def capture_files_def rdpcap_def read_db_def
        xb_batch g)
qed

theorem filter_rejects_before_ingestion_witness:
  "handle_packets quiet_net (do_sniff [who_has ''X'' ''B'', who_has ''A'' ''B''] 0 (Some deny_X) None)
     empty_ledger False False None = Inr (ledger_ab 1, []) \<and>
   ''X'' \<notin> ip_value ` set (ips empty_ledger) \<and>
   filter_packet (who_has ''X'' ''B'') (Some deny_X) None = None \<and>
   ''X'' \<notin> ip_value ` set (ips (ledger_ab 1)) \<and>
   txs_for (ledger_ab 1) ''X'' ''B'' = [] \<and>
   (capture_files(''out.db'' \<mapsto> SqliteFile empty_ledger)) ''cap.pcap''
     = Some (PcapFile [who_has ''X'' ''B'']) \<and>
   (capture_files(''out.db'' \<mapsto> SqliteFile empty_ledger)) ''out.db''
     = Some (SqliteFile empty_ledger) \<and>
   ledger_ok empty_ledger \<and>
   validate_packet (who_has ''X'' ''B'') = Some \<lparr>arp_op = 1, psrc = ''X'', pdst = ''B''\<rparr> \<and>
   analyze_pcap quiet_net ''out.db'' [''cap.pcap'']
       (capture_files(''out.db'' \<mapsto> SqliteFile empty_ledger))
     = (capture_files(''out.db'' \<mapsto> SqliteFile ledger_xb), None) \<and>
   ''X'' \<in> ip_value ` set (ips ledger_xb) \<and>
   txs_for ledger_xb ''X'' ''B'' \<noteq> [] \<and>
   analyze cwd_only quiet_net (\<lambda>t s. t) capture_files ''out.db'' (Some deny_X) None
          [''cap.pcap''] [] None False
      = (capture_files(''out.db'' \<mapsto> SqliteFile ledger_xb),
         Inr (Table [''Sender'', ''Target'', ''ARP#''] [])) \<and>
   get_output (\<lambda>t s. t) ledger_xb (Some deny_X) None None False False
      = Inr (Table [''Sender'', ''Target'', ''ARP#''] [])"
proof -
  let ?files = "capture_files(''out.db'' \<mapsto> SqliteFile empty_ledger)"
  have e: "''X'' \<notin> ip_value ` set (ips empty_ledger)" by (simp add: empty_ledger_def)
  have f: "filter_packet (who_has ''X'' ''B'') (Some deny_X) None = None"
    by (simp add: filter_packet_def validate_packet_def who_has_def unpack_arp_def
        lists_reject_def deny_X_def)
  have r: "\<forall>p\<in>set [who_has ''X'' ''B'', who_has ''A'' ''B''].
      \<forall>ar. arp_layer p = Some ar \<longrightarrow> psrc ar = ''X'' \<or> pdst ar = ''X'' \<longrightarrow>
           filter_packet p (Some deny_X) None = None"
    using f by (auto simp: who_has_def)
  have pc: "?files ''cap.pcap'' = Some (PcapFile [who_has ''X'' ''B''])"
    by (simp add: capture_files_def)
  have oc: "?files ''out.db'' = Some (SqliteFile empty_ledger)" by simp
  have ok: "ledger_ok empty_ledger" by (simp add: ledger_ok_def empty_ledger_def)
  have v: "validate_packet (who_has ''X'' ''B'') = Some \<lparr>arp_op = 1, psrc = ''X'', pdst = ''B''\<rparr>"
    by (simp add: validate_packet_def who_has_def)
  have kept: "filter (\<lambda>p. validate_packet p \<noteq> None) [who_has ''X'' ''B''] = [who_has ''X'' ''B'']"
    using v by simp
  note inst = filter_rejects_before_ingestion[where net = quiet_net
      and wire = "[who_has ''X'' ''B'', who_has ''A'' ''B'']" and n = 0 and sls = "Some deny_X"
      and tls = None and db = empty_ledger and resolve = False and active = False
      and interface = None and db' = "ledger_ab 1" and fx = "[]" and x = "''X''"
      and files = ?files and pfile = "''cap.pcap''" and pkts = "[who_has ''X'' ''B'']"
      and outfile = "''out.db''" and out = empty_ledger and rest = "[]"
      and creatable = cwd_only and stylize = "\<lambda>t s. t" and pcaps = "[''cap.pcap'']"
      and sqlites = "[]" and cp = None
      and files' = "capture_files(''out.db'' \<mapsto> SqliteFile ledger_xb)"
      and rep = "Table [''Sender'', ''Target'', ''ARP#''] []"]
  from inst live_example e r have live: "''X'' \<notin> ip_value ` set (ips (ledger_ab 1))"
    "txs_for (ledger_ab 1) ''X'' ''B'' = []"
    by blast+
  from inst pc oc ok obtain out1 fx1 where
    h: "handle_packets quiet_net (filter (\<lambda>p. validate_packet p \<noteq> None) [who_has ''X'' ''B''])
          empty_ledger False False None = Inr (out1, fx1)"
    and a: "analyze_pcap quiet_net ''out.db'' (''cap.pcap'' # []) ?files
          = analyze_pcap quiet_net ''out.db'' [] (?files(''out.db'' \<mapsto> SqliteFile out1))"
    and i: "\<forall>p\<in>set [who_has ''X'' ''B'']. \<forall>ar. validate_packet p = Some ar \<longrightarrow>
            psrc ar \<in> ip_value ` set (ips out1) \<and> pdst ar \<in> ip_value ` set (ips out1) \<and>
            txs_for out1 (psrc ar) (pdst ar) \<noteq> []"
    by blast
  from h have o1: "out1 = ledger_xb" by (simp only: kept xb_batch) simp
  from a have step: "analyze_pcap quiet_net ''out.db'' [''cap.pcap''] ?files
      = (capture_files(''out.db'' \<mapsto> SqliteFile ledger_xb), None)"
    by (simp add: o1)
  from i v have ing: "''X'' \<in> ip_value ` set (ips ledger_xb)" "txs_for ledger_xb ''X'' ''B'' \<noteq> []"
    unfolding o1 by auto
  note inst2 = filter_rejects_before_ingestion[where net = quiet_net
      and files = capture_files and outfile = "''out.db''"
      and creatable = cwd_only and stylize = "\<lambda>t s. t" and sls = "Some deny_X" and tls = None
      and pcaps = "[''cap.pcap'']" and sqlites = "[]" and cp = None and resolve = False
      and files' = "capture_files(''out.db'' \<mapsto> SqliteFile ledger_xb)"
      and rep = "Table [''Sender'', ''Target'', ''ARP#''] []"]
  from inst2[THEN conjunct2, THEN conjunct2, THEN conjunct2, THEN conjunct2, rule_format,
      OF offline_example]
  obtain led where
    "(capture_files(''out.db'' \<mapsto> SqliteFile ledger_xb)) ''out.db'' = Some (SqliteFile led)"
    "get_output (\<lambda>t s. t) led (Some deny_X) None None False False
       = Inr (Table [''Sender'', ''Target'', ''ARP#''] [])"
    by (elim exE conjE)
  then have g: "get_output (\<lambda>t s. t) ledger_xb (Some deny_X) None None False False
      = Inr (Table [''Sender'', ''Target'', ''ARP#''] [])"
    by simp
  show ?thesis
    using live_example e f live pc oc ok v step ing offline_example g by simp
qed

section \<open>Missing input files\<close>





end
